theory Spec2Isabelle
  imports Main "HOL-Library.Sublist"
begin

section \<open>Native signal collection of device\_trust (Android C++ layer)\<close>

text \<open>
  A shallow embedding of \<^verbatim>\<open>android/src/main/cpp/device_trust_native.cpp\<close>.
  A \<^verbatim>\<open>std::string\<close> is a \<^typ>\<open>string\<close> (a list of bytes). The three operating-system
  surfaces the detectors read are inputs of the model:
  \<^item> \<^verbatim>\<open>/proc/self/maps\<close> is a \<^typ>\<open>string list option\<close>: \<open>None\<close> when the stream
    is not open, otherwise the lines \<^verbatim>\<open>getline\<close> delivers, in order;
  \<^item> \<^verbatim>\<open>/proc/self/fd\<close> is a list of directory entries (\<open>None\<close> when \<^verbatim>\<open>opendir\<close>
    returns null), each with its name and what \<^verbatim>\<open>readlink\<close> gives for it;
  \<^item> \<^verbatim>\<open>dladdr\<close> is a \<open>Dl_info option\<close>: \<open>None\<close> when it returns 0.
\<close>

subsection \<open>The string operations the code uses\<close>

text \<open>\<^verbatim>\<open>tolower(static_cast<unsigned char>(c))\<close> in the C locale: only \<open>A\<close>..\<open>Z\<close> change.\<close>

definition tolower :: "char \<Rightarrow> char" where
  "tolower c =
     (if (65::nat) \<le> of_char c \<and> of_char c \<le> (90::nat)
      then char_of (of_char c + (32::nat)) else c)"

text \<open>\<^verbatim>\<open>for (auto& c : s) c = tolower(...)\<close>\<close>

definition lowercase :: "string \<Rightarrow> string" where
  "lowercase s = map tolower s"

text \<open>
  \<^verbatim>\<open>s.find(sub)\<close>: the least position at which \<open>sub\<close> occurs in \<open>s\<close>, \<open>None\<close> for
  \<^verbatim>\<open>string::npos\<close>. The third argument is the position of the current suffix.
\<close>

fun starts_with :: "string \<Rightarrow> string \<Rightarrow> bool" where
  "starts_with s [] = True"
| "starts_with [] (p # ps) = False"
| "starts_with (c # cs) (p # ps) = (c = p \<and> starts_with cs ps)"

fun find_from :: "string \<Rightarrow> string \<Rightarrow> nat \<Rightarrow> nat option" where
  "find_from [] sub i = (if sub = [] then Some i else None)"
| "find_from (c # cs) sub i =
     (if starts_with (c # cs) sub then Some i else find_from cs sub (Suc i))"

definition str_find :: "string \<Rightarrow> string \<Rightarrow> nat option" where
  "str_find s sub = find_from s sub 0"

text \<open>\<^verbatim>\<open>s.find(ch)\<close> for a single character.\<close>

fun find_char_from :: "string \<Rightarrow> char \<Rightarrow> nat \<Rightarrow> nat option" where
  "find_char_from [] ch i = None"
| "find_char_from (c # cs) ch i =
     (if c = ch then Some i else find_char_from cs ch (Suc i))"

definition str_find_char :: "string \<Rightarrow> char \<Rightarrow> nat option" where
  "str_find_char s ch = find_char_from s ch 0"

text \<open>\<^verbatim>\<open>s.rfind(ch)\<close>: the greatest position of \<open>ch\<close> in \<open>s\<close>.\<close>

fun rfind_char_from :: "string \<Rightarrow> char \<Rightarrow> nat \<Rightarrow> nat option" where
  "rfind_char_from [] ch i = None"
| "rfind_char_from (c # cs) ch i =
     (case rfind_char_from cs ch (Suc i) of
        Some j \<Rightarrow> Some j
      | None \<Rightarrow> (if c = ch then Some i else None))"

definition str_rfind_char :: "string \<Rightarrow> char \<Rightarrow> nat option" where
  "str_rfind_char s ch = rfind_char_from s ch 0"

text \<open>
  \<^verbatim>\<open>s.substr(pos)\<close> and \<^verbatim>\<open>s.substr(0, n)\<close>. \<^verbatim>\<open>substr(pos)\<close> throws
  \<^verbatim>\<open>std::out_of_range\<close> when \<open>pos\<close> exceeds the size, so it returns an option here; the
  only call passes one more than a position \<^verbatim>\<open>rfind\<close> found.
\<close>

definition substr_from :: "string \<Rightarrow> nat \<Rightarrow> string option" where
  "substr_from s pos = (if pos \<le> length s then Some (drop pos s) else None)"

definition substr_to :: "string \<Rightarrow> nat \<Rightarrow> string" where
  "substr_to s n = take n s"

subsection \<open>The maps scanner\<close>

record MapsAnalysis =
  rwxSegments :: int
  hasRwx :: bool
  fridaLibLoaded :: bool
  suspiciousModules :: "string list"

text \<open>The default member initialisers of the struct.\<close>

definition MapsAnalysis_default :: MapsAnalysis where
  "MapsAnalysis_default =
     \<lparr>rwxSegments = 0, hasRwx = False, fridaLibLoaded = False, suspiciousModules = []\<rparr>"

definition MAX_LINES :: int where
  "MAX_LINES = 10000"

definition keywords_list :: "string list" where
  "keywords_list = [''frida'', ''gum-js'', ''gum_js'', ''gadget'',
                      ''substrate'', ''xposed'', ''lsposed'', ''edxposed'']"

text \<open>Lines 58 to 61: the two textual forms of a writable-executable marker.\<close>

definition countRwx :: "string \<Rightarrow> MapsAnalysis \<Rightarrow> MapsAnalysis" where
  "countRwx line r =
     (if str_find line '' rwxp'' \<noteq> None \<or> str_find line '' rwx'' \<noteq> None
      then r\<lparr>rwxSegments := rwxSegments r + 1, hasRwx := True\<rparr>
      else r)"

text \<open>Lines 81 to 86: the text after the last slash, cut at its first space.\<close>

definition extractModule :: "string \<Rightarrow> nat \<Rightarrow> string option" where
  "extractModule line lastSlash =
     (case substr_from line (lastSlash + 1) of
        None \<Rightarrow> None
      | Some module \<Rightarrow>
          (case str_find_char module CHR '' '' of
             Some space \<Rightarrow> Some (substr_to module space)
           | None \<Rightarrow> Some module))"

text \<open>Lines 89 to 95: the linear search for an equal entry.\<close>

fun moduleExists :: "string list \<Rightarrow> string \<Rightarrow> bool" where
  "moduleExists [] module = False"
| "moduleExists (m # ms) module = (if m = module then True else moduleExists ms module)"

text \<open>
  Lines 74 to 100: what happens at the first keyword found in the lower-cased line.
  A failing \<^verbatim>\<open>substr\<close> would leave the function by an exception: \<open>None\<close>.
\<close>

definition onKeyword :: "string \<Rightarrow> string \<Rightarrow> MapsAnalysis \<Rightarrow> MapsAnalysis option" where
  "onKeyword keyword line r =
     (let r1 = (if str_find keyword ''frida'' \<noteq> None \<or> str_find keyword ''gum'' \<noteq> None
                then r\<lparr>fridaLibLoaded := True\<rparr> else r)
      in case str_rfind_char line CHR ''/'' of
           None \<Rightarrow> Some r1
         | Some lastSlash \<Rightarrow>
             (case extractModule line lastSlash of
                None \<Rightarrow> None
              | Some module \<Rightarrow>
                  (let exists = moduleExists (suspiciousModules r1) module
                   in if \<not> exists \<and> module \<noteq> []
                      then Some (r1\<lparr>suspiciousModules := suspiciousModules r1 @ [module]\<rparr>)
                      else Some r1)))"

text \<open>Lines 72 to 102: the loop over the keywords, left at the first one found.\<close>

fun scanKeywords :: "string list \<Rightarrow> string \<Rightarrow> string \<Rightarrow> MapsAnalysis \<Rightarrow> MapsAnalysis option" where
  "scanKeywords [] lowerLine line r = Some r"
| "scanKeywords (keyword # ks) lowerLine line r =
     (if str_find lowerLine keyword \<noteq> None then onKeyword keyword line r
      else scanKeywords ks lowerLine line r)"

text \<open>Lines 55 to 102: the body of the loop over the lines, without the counter.\<close>

definition processLine :: "string \<Rightarrow> MapsAnalysis \<Rightarrow> MapsAnalysis option" where
  "processLine line r = scanKeywords keywords_list (lowercase line) line (countRwx line r)"

text \<open>
  Line 54: \<^verbatim>\<open>while (getline(maps, line) && lineCount < MAX_LINES)\<close>. The loop state is
  the counter and the result; both are returned, so that the number of lines processed
  can be read off.
\<close>

fun mapsLoop :: "string list \<Rightarrow> int \<Rightarrow> MapsAnalysis \<Rightarrow> (int \<times> MapsAnalysis) option" where
  "mapsLoop [] lineCount r = Some (lineCount, r)"
| "mapsLoop (line # rest) lineCount r =
     (if lineCount < MAX_LINES
      then (case processLine line r of
              None \<Rightarrow> None
            | Some r' \<Rightarrow> mapsLoop rest (lineCount + 1) r')
      else Some (lineCount, r))"

text \<open>
  \<open>analyzeProcMaps_run\<close> is the whole function with its loop counter; \<open>None\<close> would be an
  exception leaving it. \<open>analyzeProcMaps\<close> is the value it returns.
\<close>

definition analyzeProcMaps_run :: "string list option \<Rightarrow> (int \<times> MapsAnalysis) option" where
  "analyzeProcMaps_run maps =
     (case maps of
        None \<Rightarrow> Some (0, MapsAnalysis_default)
      | Some lines \<Rightarrow> mapsLoop lines 0 MapsAnalysis_default)"

definition analyzeProcMaps :: "string list option \<Rightarrow> MapsAnalysis option" where
  "analyzeProcMaps maps = map_option snd (analyzeProcMaps_run maps)"

subsection \<open>The file-descriptor scanner\<close>

text \<open>
  One \<^verbatim>\<open>struct dirent\<close> as the loop sees it: its name, and what
  \<^verbatim>\<open>readlink(fdPath, linkTarget, sizeof(linkTarget) - 1)\<close> returns for it: \<open>None\<close> for
  the return value -1, otherwise the bytes placed in the buffer (their number is \<open>len\<close>).
\<close>

record fd_entry =
  d_name :: string
  readlink_result :: "string option"

definition MAX_FD_CHECK :: int where
  "MAX_FD_CHECK = 100"

text \<open>Line 126: \<^verbatim>\<open>entry->d_name[0] == '.'\<close>; an empty name starts with its terminator.\<close>

definition isDotEntry :: "fd_entry \<Rightarrow> bool" where
  "isDotEntry entry = (case d_name entry of [] \<Rightarrow> False | c # cs \<Rightarrow> c = CHR ''.'')"

text \<open>
  Lines 135 and 136: the buffer is terminated after \<open>len\<close> bytes and converted as a C
  string, which ends at its first zero byte.
\<close>

definition c_string :: "string \<Rightarrow> string" where
  "c_string bytes = takeWhile (\<lambda>c. c \<noteq> CHR 0x00) bytes"

text \<open>Lines 141 to 143: the three keywords of this scanner.\<close>

definition targetIsFrida :: "string \<Rightarrow> bool" where
  "targetIsFrida target =
     (str_find target ''frida'' \<noteq> None \<or>
      str_find target ''gadget'' \<noteq> None \<or>
      str_find target ''gum-js'' \<noteq> None)"

text \<open>
  Lines 126 to 147, for one entry: whether the body of the loop sets \<open>found\<close>. A dot
  entry is skipped before \<^verbatim>\<open>readlink\<close>; a failed or empty \<^verbatim>\<open>readlink\<close> is skipped.
\<close>

definition entryIsFrida :: "fd_entry \<Rightarrow> bool" where
  "entryIsFrida entry =
     (if isDotEntry entry then False
      else (case readlink_result entry of
              None \<Rightarrow> False
            | Some bytes \<Rightarrow>
                (if 0 < length bytes
                 then targetIsFrida (lowercase (c_string bytes))
                 else False)))"

text \<open>
  Line 123: \<^verbatim>\<open>while ((entry = readdir(dir)) != nullptr && count < MAX_FD_CHECK)\<close>, with
  the \<^verbatim>\<open>break\<close> at the first match. The loop returns its counter beside \<open>found\<close>.
\<close>

fun fdLoop :: "fd_entry list \<Rightarrow> int \<Rightarrow> int \<times> bool" where
  "fdLoop [] count = (count, False)"
| "fdLoop (entry # rest) count =
     (if count < MAX_FD_CHECK
      then (if entryIsFrida entry then (count + 1, True) else fdLoop rest (count + 1))
      else (count, False))"

definition checkFdForFrida_run :: "fd_entry list option \<Rightarrow> int \<times> bool" where
  "checkFdForFrida_run dir =
     (case dir of None \<Rightarrow> (0, False) | Some entries \<Rightarrow> fdLoop entries 0)"

definition checkFdForFrida :: "fd_entry list option \<Rightarrow> bool" where
  "checkFdForFrida dir = snd (checkFdForFrida_run dir)"

subsection \<open>The libc symbol check\<close>

text \<open>The one field of \<^verbatim>\<open>Dl_info\<close> the code reads; \<open>None\<close> is a null pointer.\<close>

record Dl_info =
  dli_fname :: "string option"

record LibcCheck =
  soPath :: string
  unexpected :: bool

definition LibcCheck_default :: LibcCheck where
  "LibcCheck_default = \<lparr>soPath = [], unexpected = False\<rparr>"

text \<open>The argument is what \<^verbatim>\<open>dladdr(symbol, &info)\<close> gives: \<open>None\<close> when it returns 0.\<close>

definition checkLibcSymbol :: "Dl_info option \<Rightarrow> LibcCheck" where
  "checkLibcSymbol dl =
     (case dl of
        None \<Rightarrow> LibcCheck_default
      | Some info \<Rightarrow>
          (case dli_fname info of
             None \<Rightarrow> LibcCheck_default
           | Some fname \<Rightarrow>
               (let result = LibcCheck_default\<lparr>soPath := fname\<rparr>;
                    path = soPath result
                in if str_find path ''/system/lib'' = None \<and>
                      str_find path ''/apex/'' = None \<and>
                      str_find path ''libc.so'' = None
                   then result\<lparr>unexpected := True\<rparr>
                   else result)))"

subsection \<open>The report builder\<close>

definition quote_char :: char where
  "quote_char = CHR 0x22"

definition backslash_char :: char where
  "backslash_char = CHR 0x5C"

text \<open>Lines 187 to 196. The loop appends to \<open>escaped\<close>, character by character.\<close>

fun escapeLoop :: "string \<Rightarrow> string \<Rightarrow> string" where
  "escapeLoop [] escaped = escaped"
| "escapeLoop (c # cs) escaped =
     escapeLoop cs
       ((if c = quote_char \<or> c = backslash_char then escaped @ [backslash_char] else escaped)
        @ [c])"

definition escapeJsonString :: "string \<Rightarrow> string" where
  "escapeJsonString str = escapeLoop str []"

text \<open>
  Lines 198 to 212. The loop runs over the indices; \<open>vec.size() - 1\<close> is unsigned, and
  the vector is not empty where the loop is reached.
\<close>

function arrayLoop :: "string list \<Rightarrow> nat \<Rightarrow> string \<Rightarrow> string" where
  "arrayLoop vec i json =
     (if i < length vec
      then arrayLoop vec (i + 1)
             (let json1 = json @ [quote_char] @ escapeJsonString (vec ! i) @ [quote_char]
              in if i < length vec - 1 then json1 @ '','' else json1)
      else json)"
  by pat_completeness auto
termination
  by (relation "measure (\<lambda>(vec, i, json). length vec - i)") auto

declare arrayLoop.simps [simp del]

definition vectorToJsonArray :: "string list \<Rightarrow> string" where
  "vectorToJsonArray vec = (if vec = [] then ''[]'' else arrayLoop vec 0 ''['' @ '']'')"

text \<open>
  \<^verbatim>\<open>operator<<(int)\<close> of a stream in its default state: the decimal digits, with a
  minus sign before a negative number.
\<close>

definition digit_char :: "nat \<Rightarrow> char" where
  "digit_char d = char_of (48 + d)"

function digits_of :: "nat \<Rightarrow> string" where
  "digits_of n = (if n < 10 then [digit_char n] else digits_of (n div 10) @ [digit_char (n mod 10)])"
  by pat_completeness auto
termination
  by (relation "measure id") auto

declare digits_of.simps [simp del]

definition show_int :: "int \<Rightarrow> string" where
  "show_int i = (if i < 0 then CHR ''-'' # digits_of (nat (- i)) else digits_of (nat i))"

definition show_bool :: "bool \<Rightarrow> string" where
  "show_bool b = (if b then ''true'' else ''false'')"

text \<open>
  Lines 239 to 249, the text written to the stream. \<open>elapsedText\<close> stands for the
  characters \<^verbatim>\<open>operator<<(double)\<close> writes for \<^verbatim>\<open>elapsed.count()\<close>: the clock and
  the formatting of a \<^verbatim>\<open>double\<close> are outside the model.
\<close>

definition buildJson :: "MapsAnalysis \<Rightarrow> bool \<Rightarrow> LibcCheck \<Rightarrow> string \<Rightarrow> string" where
  "buildJson mapsResult fdFrida libcResult elapsedText =
     ''{'' @
     [quote_char] @ ''rwxSegments'' @ [quote_char] @ '':'' @ show_int (rwxSegments mapsResult) @ '','' @
     [quote_char] @ ''hasRwx'' @ [quote_char] @ '':'' @ show_bool (hasRwx mapsResult) @ '','' @
     [quote_char] @ ''fridaLibLoaded'' @ [quote_char] @ '':'' @ show_bool (fridaLibLoaded mapsResult) @ '','' @
     [quote_char] @ ''fdFrida'' @ [quote_char] @ '':'' @ show_bool fdFrida @ '','' @
     [quote_char] @ ''libcGetpidSo'' @ [quote_char] @ '':'' @
       [quote_char] @ escapeJsonString (soPath libcResult) @ [quote_char] @ '','' @
     [quote_char] @ ''libcGetpidUnexpected'' @ [quote_char] @ '':'' @ show_bool (unexpected libcResult) @ '','' @
     [quote_char] @ ''nativeTimeMs'' @ [quote_char] @ '':'' @ elapsedText @ '','' @
     [quote_char] @ ''suspiciousModules'' @ [quote_char] @ '':'' @
       vectorToJsonArray (suspiciousModules mapsResult) @
     ''}''"

text \<open>
  Lines 217 to 258: the three detectors in sequence, then the text of the report. The
  function returns \<^verbatim>\<open>env->NewStringUTF(result.c_str())\<close>: what it hands over is the C string
  of the text, which ends before the first zero byte. How the JNI turns these bytes into
  a Java string is outside the model. \<open>None\<close> would be an exception leaving a detector.
\<close>

definition collectNativeSignals ::
  "string list option \<Rightarrow> fd_entry list option \<Rightarrow> Dl_info option \<Rightarrow> string \<Rightarrow> string option" where
  "collectNativeSignals maps dir dl elapsedText =
     (case analyzeProcMaps maps of
        None \<Rightarrow> None
      | Some mapsResult \<Rightarrow>
          (let fdFrida = checkFdForFrida dir;
               libcResult = checkLibcSymbol dl
           in Some (c_string (buildJson mapsResult fdFrida libcResult elapsedText))))"

section \<open>The properties, in the words of the specification\<close>

text \<open>
  The definitions of this section are not translations of code: they say, with library
  notions (\<^const>\<open>sublist\<close>, \<^const>\<open>takeWhile\<close>, \<^const>\<open>filter\<close>), what the specification
  promises, and the theorems compare the code with them.
\<close>

subsection \<open>Lower case\<close>

text \<open>
  Lower-casing said without character codes: the table of the twenty-six capital letters
  with their small letters; every other byte stays as it is.
\<close>

definition spec_lower :: "char \<Rightarrow> char" where
  "spec_lower c =
     (case map_of (zip ''ABCDEFGHIJKLMNOPQRSTUVWXYZ'' ''abcdefghijklmnopqrstuvwxyz'') c of
        Some l \<Rightarrow> l
      | None \<Rightarrow> c)"

definition spec_lowercase :: "string \<Rightarrow> string" where
  "spec_lowercase s = map spec_lower s"

subsection \<open>Maps scanner\<close>

definition spec_has_keyword :: "string \<Rightarrow> bool" where
  "spec_has_keyword line = list_ex (\<lambda>k. sublist k (spec_lowercase line)) keywords_list"

text \<open>The keywords that relate to \<open>frida\<close> or \<open>gum\<close>.\<close>

definition spec_frida_line :: "string \<Rightarrow> bool" where
  "spec_frida_line line =
     (sublist ''frida'' (spec_lowercase line) \<or> sublist ''gum-js'' (spec_lowercase line) \<or>
      sublist ''gum_js'' (spec_lowercase line))"

definition spec_rwx_line :: "string \<Rightarrow> bool" where
  "spec_rwx_line line = (sublist '' rwxp'' line \<or> sublist '' rwx'' line)"

text \<open>The segment after the last slash, cut at its first space.\<close>

definition spec_basename :: "string \<Rightarrow> string" where
  "spec_basename line =
     takeWhile (\<lambda>c. c \<noteq> CHR '' '') (rev (takeWhile (\<lambda>c. c \<noteq> CHR ''/'') (rev line)))"

text \<open>The module name a line proposes for the suspicious-module list, if any.\<close>

definition spec_candidate :: "string \<Rightarrow> string option" where
  "spec_candidate line =
     (if spec_has_keyword line \<and> CHR ''/'' \<in> set line \<and> spec_basename line \<noteq> []
      then Some (spec_basename line) else None)"

text \<open>Every element once, at the place of its first occurrence.\<close>

fun spec_first_seen :: "'a list \<Rightarrow> 'a list" where
  "spec_first_seen [] = []"
| "spec_first_seen (x # xs) = x # removeAll x (spec_first_seen xs)"

text \<open>The effect of one line on the result, in closed form.\<close>

definition spec_add_module :: "string list \<Rightarrow> string option \<Rightarrow> string list" where
  "spec_add_module ms cand =
     (case cand of None \<Rightarrow> ms | Some m \<Rightarrow> if m \<in> set ms then ms else ms @ [m])"

definition spec_line_effect :: "MapsAnalysis \<Rightarrow> string \<Rightarrow> MapsAnalysis" where
  "spec_line_effect r line =
     \<lparr>rwxSegments = rwxSegments r + (if spec_rwx_line line then 1 else 0),
      hasRwx = (hasRwx r \<or> spec_rwx_line line),
      fridaLibLoaded = (fridaLibLoaded r \<or> spec_frida_line line),
      suspiciousModules = spec_add_module (suspiciousModules r) (spec_candidate line)\<rparr>"

text \<open>The lines of the listing, none when it cannot be opened.\<close>

definition lines_of :: "string list option \<Rightarrow> string list" where
  "lines_of maps = (case maps of None \<Rightarrow> [] | Some lines \<Rightarrow> lines)"

subsection \<open>File-descriptor scanner\<close>

definition spec_fd_keyword :: "string \<Rightarrow> bool" where
  "spec_fd_keyword target =
     (sublist ''frida'' target \<or> sublist ''gadget'' target \<or> sublist ''gum-js'' target)"

text \<open>
  An entry that counts as a match: not a dot entry, with a symlink that resolves to a
  non-empty target whose lower-cased text holds a keyword.
\<close>

definition spec_entry_matches :: "fd_entry \<Rightarrow> bool" where
  "spec_entry_matches e =
     (take 1 (d_name e) \<noteq> ''.'' \<and>
      (case readlink_result e of
         None \<Rightarrow> False
       | Some bytes \<Rightarrow> bytes \<noteq> [] \<and> spec_fd_keyword (spec_lowercase (c_string bytes))))"

definition entries_of :: "fd_entry list option \<Rightarrow> fd_entry list" where
  "entries_of dir = (case dir of None \<Rightarrow> [] | Some entries \<Rightarrow> entries)"

text \<open>
  The entries the scanner examines: those within the cap, up to and including the first
  match.
\<close>

definition spec_examined :: "fd_entry list \<Rightarrow> fd_entry list" where
  "spec_examined entries =
     (let capped = take 100 entries;
          before = takeWhile (\<lambda>e. \<not> spec_entry_matches e) capped
      in take (Suc (length before)) capped)"

subsection \<open>Libc symbol check\<close>

definition spec_accepted_path :: "string \<Rightarrow> bool" where
  "spec_accepted_path path =
     (sublist ''/system/lib'' path \<or> sublist ''/apex/'' path \<or> sublist ''libc.so'' path)"

subsection \<open>The text format of the report\<close>

text \<open>
  What it means for a text to be one JSON object with named members: a reader that
  follows the grammar of the format (RFC 8259), for the part of it the report needs. An
  object is members \<open>"name":value\<close> separated by commas; a value is a string, \<open>true\<close>,
  \<open>false\<close>, a list of strings, or a number.
  \<^item> Inside a string a byte stands for itself only if it is none of the quote, the
    backslash and the control bytes below 0x20, which the format forbids there. A
    backslash is followed by one of \<^verbatim>\<open>" \ / b f n r t\<close> and the pair stands for the
    character it names.
  \<^item> A number is an optional minus sign, an integer part without leading zero, an
    optional fraction and an optional exponent.
  The reader is stricter than the format in three ways, so that every text it accepts is
  a JSON text: it takes no white space between tokens, no \<^verbatim>\<open>\u\<close> escape, and no byte
  above 0x7F (whether such bytes form UTF-8 is not decided here).
\<close>

text \<open>The escaped form of one character, and the text between the brackets of a list.\<close>

definition spec_escape_char :: "char \<Rightarrow> string" where
  "spec_escape_char c = (if c = quote_char \<or> c = backslash_char then [backslash_char, c] else [c])"

fun spec_array_elements :: "string list \<Rightarrow> string" where
  "spec_array_elements [] = []"
| "spec_array_elements [v] = [quote_char] @ escapeJsonString v @ [quote_char]"
| "spec_array_elements (v # w # vs) =
     [quote_char] @ escapeJsonString v @ [quote_char] @ '','' @ spec_array_elements (w # vs)"

datatype json_value =
  JNumber string
| JBool bool
| JString string
| JArray "string list"

text \<open>The bytes a string may hold: ASCII from the space on.\<close>

definition json_plain :: "char \<Rightarrow> bool" where
  "json_plain c = ((32::nat) \<le> of_char c \<and> of_char c \<le> (127::nat))"

text \<open>The character a backslash and the given character stand for.\<close>

definition json_escape :: "char \<Rightarrow> char option" where
  "json_escape d =
     (if d = quote_char then Some quote_char
      else if d = backslash_char then Some backslash_char
      else if d = CHR ''/'' then Some CHR ''/''
      else if d = CHR ''b'' then Some (CHR 0x08)
      else if d = CHR ''f'' then Some (CHR 0x0C)
      else if d = CHR ''n'' then Some (CHR 0x0A)
      else if d = CHR ''r'' then Some (CHR 0x0D)
      else if d = CHR ''t'' then Some (CHR 0x09)
      else None)"

text \<open>
  The content of a string up to its closing quote; the text after the quote is returned
  too. A control byte, or a byte above 0x7F, before the closing quote makes the text
  unreadable.
\<close>

fun read_string_body :: "string \<Rightarrow> (string \<times> string) option" where
  "read_string_body [] = None"
| "read_string_body (c # cs) =
     (if c = quote_char then Some ([], cs)
      else if c = backslash_char
      then (case cs of
              [] \<Rightarrow> None
            | d # ds \<Rightarrow>
                (case json_escape d of
                   None \<Rightarrow> None
                 | Some x \<Rightarrow> map_option (apfst ((#) x)) (read_string_body ds)))
      else if json_plain c then map_option (apfst ((#) c)) (read_string_body cs)
      else None)"


text \<open>The grammar of a number: \<open>[-] int [frac] [exp]\<close>.\<close>

definition json_digit :: "char \<Rightarrow> bool" where
  "json_digit c = (c \<in> set ''0123456789'')"

definition json_int_part :: "string \<Rightarrow> bool" where
  "json_int_part ds = (ds \<noteq> [] \<and> list_all json_digit ds \<and> (ds = ''0'' \<or> hd ds \<noteq> CHR ''0''))"

definition json_exp :: "string \<Rightarrow> bool" where
  "json_exp r =
     (case r of
        [] \<Rightarrow> True
      | c # r1 \<Rightarrow>
          (c = CHR ''e'' \<or> c = CHR ''E'') \<and>
          (let ds = (case r1 of
                       [] \<Rightarrow> []
                     | s # r2 \<Rightarrow> if s = CHR ''+'' \<or> s = CHR ''-'' then r2 else r1)
           in ds \<noteq> [] \<and> list_all json_digit ds))"

definition json_frac_exp :: "string \<Rightarrow> bool" where
  "json_frac_exp r =
     (case r of
        [] \<Rightarrow> True
      | c # r1 \<Rightarrow>
          if c = CHR ''.''
          then takeWhile json_digit r1 \<noteq> [] \<and> json_exp (dropWhile json_digit r1)
          else json_exp r)"

definition json_number :: "string \<Rightarrow> bool" where
  "json_number t =
     (let u = (case t of [] \<Rightarrow> [] | c # r \<Rightarrow> if c = CHR ''-'' then r else t)
      in json_int_part (takeWhile json_digit u) \<and> json_frac_exp (dropWhile json_digit u))"

text \<open>
  A number token is the longest run of characters a number can be made of, and it must
  be a number.
\<close>

definition is_number_char :: "char \<Rightarrow> bool" where
  "is_number_char c = (c \<in> set ''0123456789+-.eE'')"

definition read_number :: "string \<Rightarrow> (string \<times> string) option" where
  "read_number s =
     (let tok = takeWhile is_number_char s
      in if json_number tok then Some (tok, dropWhile is_number_char s) else None)"

text \<open>
  The elements of a non-empty list of strings, after the opening bracket. The first
  argument bounds the number of elements read (the length of the text is enough).
\<close>

fun read_elements :: "nat \<Rightarrow> string \<Rightarrow> (string list \<times> string) option" where
  "read_elements 0 s = None"
| "read_elements (Suc n) s =
     (case s of
        [] \<Rightarrow> None
      | c # s1 \<Rightarrow>
          (if c \<noteq> quote_char then None
           else (case read_string_body s1 of
                   None \<Rightarrow> None
                 | Some (x, s2) \<Rightarrow>
                     (case s2 of
                        [] \<Rightarrow> None
                      | d # s3 \<Rightarrow>
                          (if d = CHR '','' then map_option (apfst ((#) x)) (read_elements n s3)
                           else if d = CHR '']'' then Some ([x], s3)
                           else None)))))"

definition read_value :: "string \<Rightarrow> (json_value \<times> string) option" where
  "read_value s =
     (case s of
        [] \<Rightarrow> None
      | c # cs \<Rightarrow>
          (if c = quote_char then map_option (apfst JString) (read_string_body cs)
           else if c = CHR ''[''
           then (case cs of
                   [] \<Rightarrow> None
                 | d # ds \<Rightarrow>
                     (if d = CHR '']'' then Some (JArray [], ds)
                      else map_option (apfst JArray) (read_elements (length cs) cs)))
           else if prefix ''true'' s then Some (JBool True, drop 4 s)
           else if prefix ''false'' s then Some (JBool False, drop 5 s)
           else map_option (apfst JNumber) (read_number s)))"

text \<open>The members of a non-empty object, after the opening brace.\<close>

fun read_members :: "nat \<Rightarrow> string \<Rightarrow> ((string \<times> json_value) list \<times> string) option" where
  "read_members 0 s = None"
| "read_members (Suc n) s =
     (case s of
        [] \<Rightarrow> None
      | c # s1 \<Rightarrow>
          (if c \<noteq> quote_char then None
           else (case read_string_body s1 of
                   None \<Rightarrow> None
                 | Some (k, s2) \<Rightarrow>
                     (case s2 of
                        [] \<Rightarrow> None
                      | d # s3 \<Rightarrow>
                          (if d \<noteq> CHR '':'' then None
                           else (case read_value s3 of
                                   None \<Rightarrow> None
                                 | Some (v, s4) \<Rightarrow>
                                     (case s4 of
                                        [] \<Rightarrow> None
                                      | e # s5 \<Rightarrow>
                                          (if e = CHR '',''
                                           then map_option (apfst ((#) (k, v))) (read_members n s5)
                                           else if e = CHR ''}'' then Some ([(k, v)], s5)
                                           else None))))))))"

text \<open>A whole text as one object: its members in order, nothing after the closing brace.\<close>

definition read_object :: "string \<Rightarrow> (string \<times> json_value) list option" where
  "read_object s =
     (case s of
        [] \<Rightarrow> None
      | c # s1 \<Rightarrow>
          (if c \<noteq> CHR ''{'' then None
           else (case s1 of
                   [] \<Rightarrow> None
                 | d # s2 \<Rightarrow>
                     (if d = CHR ''}'' then (if s2 = [] then Some [] else None)
                      else (case read_members (length s1) s1 of
                              None \<Rightarrow> None
                            | Some (ms, rest) \<Rightarrow> if rest = [] then Some ms else None)))))"




subsection \<open>The parser of the calling layer\<close>








section \<open>Proofs\<close>

subsection \<open>The string operations against the library's notions\<close>

lemma capital_letters: "map char_of [65..<91::nat] = ''ABCDEFGHIJKLMNOPQRSTUVWXYZ''"
  by code_simp

lemma tolower_capitals:
  "list_all (\<lambda>c. tolower c = spec_lower c) ''ABCDEFGHIJKLMNOPQRSTUVWXYZ''"
  by code_simp

lemma tolower_eq: "tolower c = spec_lower c"
proof (cases "c \<in> set ''ABCDEFGHIJKLMNOPQRSTUVWXYZ''")
  case True
  with tolower_capitals show ?thesis
    unfolding list_all_iff by blast
next
  case False
  then have s: "spec_lower c = c"
    by (simp add: spec_lower_def)
  have "\<not> ((65::nat) \<le> of_char c \<and> of_char c \<le> (90::nat))"
  proof
    assume "(65::nat) \<le> of_char c \<and> of_char c \<le> (90::nat)"
    then have "(of_char c :: nat) \<in> {65..<91}" by simp
    then have "(of_char c :: nat) \<in> set [65..<91]" by (simp only: set_upt)
    then have "char_of (of_char c :: nat) \<in> set (map char_of [65..<91::nat])"
      unfolding set_map by (rule imageI)
    then have "c \<in> set ''ABCDEFGHIJKLMNOPQRSTUVWXYZ''"
      by (simp only: capital_letters char_of_char)
    with False show False by contradiction
  qed
  then have "tolower c = c" unfolding tolower_def by (rule if_not_P)
  with s show ?thesis by simp
qed

lemma lowercase_eq: "lowercase s = spec_lowercase s"
  by (simp add: lowercase_def spec_lowercase_def tolower_eq)


lemma starts_with_prefix: "starts_with s p = prefix p s"
  by (induction s p rule: starts_with.induct) auto

lemma find_from_None_iff: "(find_from s sub i = None) = (\<not> sublist sub s)"
  by (induction s arbitrary: i) (auto simp: starts_with_prefix sublist_Cons_right)

lemma str_find_sublist: "(str_find s sub \<noteq> None) = sublist sub s"
  by (simp add: str_find_def find_from_None_iff)

lemma str_find_None_iff: "(str_find s sub = None) = (\<not> sublist sub s)"
  by (simp add: str_find_def find_from_None_iff)

lemma str_find_Some_iff: "(\<exists>y. str_find s sub = Some y) = sublist sub s"
  using str_find_sublist [of s sub] by auto

lemmas str_find_iffs = str_find_None_iff str_find_Some_iff

lemma find_char_from_None_iff: "(find_char_from s ch i = None) = (ch \<notin> set s)"
  by (induction s arbitrary: i) auto

lemma find_char_from_Some:
  "find_char_from s ch i = Some j \<Longrightarrow> i \<le> j \<and> take (j - i) s = takeWhile (\<lambda>c. c \<noteq> ch) s"
proof (induction s arbitrary: i)
  case Nil
  then show ?case by simp
next
  case (Cons c cs)
  show ?case
  proof (cases "c = ch")
    case True
    with Cons.prems show ?thesis by simp
  next
    case False
    with Cons.prems have h: "find_char_from cs ch (Suc i) = Some j" by simp
    from Cons.IH [OF h] have "Suc i \<le> j" and t: "take (j - Suc i) cs = takeWhile (\<lambda>c. c \<noteq> ch) cs"
      by auto
    then have "j - i = Suc (j - Suc i)" by arith
    with False t \<open>Suc i \<le> j\<close> show ?thesis by simp
  qed
qed

lemma rfind_char_from_None_iff: "(rfind_char_from s ch i = None) = (ch \<notin> set s)"
proof (induction s arbitrary: i)
  case Nil
  then show ?case by simp
next
  case (Cons c cs)
  show ?case
  proof (cases "rfind_char_from cs ch (Suc i)")
    case None
    with Cons.IH [of "Suc i"] show ?thesis by auto
  next
    case (Some k)
    with Cons.IH [of "Suc i"] show ?thesis by auto
  qed
qed

lemma rfind_char_from_Some:
  "rfind_char_from s ch i = Some j \<Longrightarrow>
     i \<le> j \<and> j - i < length s \<and> drop (Suc (j - i)) s = rev (takeWhile (\<lambda>c. c \<noteq> ch) (rev s))"
proof (induction s arbitrary: i)
  case Nil
  then show ?case by simp
next
  case (Cons c cs)
  show ?case
  proof (cases "rfind_char_from cs ch (Suc i)")
    case None
    then have notin: "ch \<notin> set cs" by (simp add: rfind_char_from_None_iff)
    from None Cons.prems have "c = ch" and "j = i" by (auto split: if_splits)
    moreover from notin have "takeWhile (\<lambda>c. c \<noteq> ch) (rev cs @ [ch]) = rev cs"
      using takeWhile_append2 [of "rev cs" "\<lambda>c. c \<noteq> ch" "[ch]"] by auto
    ultimately show ?thesis by simp
  next
    case (Some k)
    with Cons.prems have "k = j" by simp
    with Some have h: "rfind_char_from cs ch (Suc i) = Some j" by simp
    from Cons.IH [OF h] have a: "Suc i \<le> j" and b: "j - Suc i < length cs"
      and c: "drop (Suc (j - Suc i)) cs = rev (takeWhile (\<lambda>c. c \<noteq> ch) (rev cs))" by auto
    from h have "ch \<in> set cs" using rfind_char_from_None_iff [of cs ch "Suc i"] by auto
    then have "ch \<in> set (rev cs)" by simp
    then have d: "takeWhile (\<lambda>c. c \<noteq> ch) (rev cs @ [c]) = takeWhile (\<lambda>c. c \<noteq> ch) (rev cs)"
      by (simp add: takeWhile_append1)
    from a have "j - i = Suc (j - Suc i)" by arith
    with a b c d show ?thesis by simp
  qed
qed

subsection \<open>The maps scanner, line by line\<close>

lemma moduleExists_set: "moduleExists ms m = (m \<in> set ms)"
  by (induction ms) auto

lemma takeWhile_all: "ch \<notin> set s \<Longrightarrow> takeWhile (\<lambda>c. c \<noteq> ch) s = s"
  by (induction s) auto

lemma cut_at_space:
  "(case str_find_char m CHR '' '' of
      Some space \<Rightarrow> Some (substr_to m space) | None \<Rightarrow> Some m)
   = Some (takeWhile (\<lambda>c. c \<noteq> CHR '' '') m)"
proof (cases "str_find_char m CHR '' ''")
  case None
  then have "CHR '' '' \<notin> set m"
    by (simp add: str_find_char_def find_char_from_None_iff)
  with None show ?thesis by (simp add: takeWhile_all)
next
  case (Some k)
  then have "find_char_from m CHR '' '' 0 = Some k"
    by (simp add: str_find_char_def)
  from find_char_from_Some [OF this]
  have "take k m = takeWhile (\<lambda>c. c \<noteq> CHR '' '') m" by simp
  with Some show ?thesis by (simp add: substr_to_def)
qed

lemma extractModule_basename:
  assumes "str_rfind_char line CHR ''/'' = Some j"
  shows "extractModule line j = Some (spec_basename line)"
proof -
  from assms have r: "rfind_char_from line CHR ''/'' 0 = Some j"
    by (simp add: str_rfind_char_def)
  from rfind_char_from_Some [OF r]
  have lt: "j < length line"
    and dr: "rev (takeWhile (\<lambda>c. c \<noteq> CHR ''/'') (rev line)) = drop (Suc j) line"
    by auto
  have sub: "substr_from line (j + 1) = Some (drop (Suc j) line)"
    using lt by (simp add: substr_from_def)
  show ?thesis
    by (simp only: extractModule_def sub spec_basename_def dr option.case cut_at_space)
qed

lemma countRwx_eq:
  "countRwx line r =
     r\<lparr>rwxSegments := rwxSegments r + (if spec_rwx_line line then 1 else 0),
       hasRwx := (hasRwx r \<or> spec_rwx_line line)\<rparr>"
  by (cases r) (auto simp: countRwx_def spec_rwx_line_def str_find_iffs)

lemma onKeyword_eq:
  "onKeyword k line r =
     Some (r\<lparr>fridaLibLoaded := (fridaLibLoaded r \<or> sublist ''frida'' k \<or> sublist ''gum'' k),
             suspiciousModules :=
               (if CHR ''/'' \<in> set line \<and> spec_basename line \<noteq> [] \<and>
                   spec_basename line \<notin> set (suspiciousModules r)
                then suspiciousModules r @ [spec_basename line]
                else suspiciousModules r)\<rparr>)"
proof (cases "str_rfind_char line CHR ''/''")
  case None
  then have "CHR ''/'' \<notin> set line"
    by (simp add: str_rfind_char_def rfind_char_from_None_iff)
  with None show ?thesis
    by (cases r) (auto simp: onKeyword_def str_find_iffs)
next
  case (Some j)
  then have "CHR ''/'' \<in> set line"
    using rfind_char_from_None_iff [of line "CHR ''/''" 0] by (auto simp: str_rfind_char_def)
  with Some extractModule_basename [OF Some] show ?thesis
    by (cases r) (auto simp: onKeyword_def str_find_iffs moduleExists_set Let_def)
qed

lemma scanKeywords_eq:
  "scanKeywords ks low line r =
     Some (r\<lparr>fridaLibLoaded :=
               (fridaLibLoaded r \<or>
                (case List.find (\<lambda>k. sublist k low) ks of
                   None \<Rightarrow> False
                 | Some k \<Rightarrow> sublist ''frida'' k \<or> sublist ''gum'' k)),
             suspiciousModules :=
               (if list_ex (\<lambda>k. sublist k low) ks \<and> CHR ''/'' \<in> set line \<and>
                   spec_basename line \<noteq> [] \<and>
                   spec_basename line \<notin> set (suspiciousModules r)
                then suspiciousModules r @ [spec_basename line]
                else suspiciousModules r)\<rparr>)"
proof (induction ks)
  case Nil
  show ?case by (cases r) simp
next
  case (Cons k ks)
  show ?case
  proof (cases "sublist k low")
    case True
    then show ?thesis by (simp add: str_find_iffs onKeyword_eq)
  next
    case False
    with Cons.IH show ?thesis by (simp add: str_find_iffs)
  qed
qed

lemma first_keyword_frida:
  "(case List.find (\<lambda>k. sublist k low) keywords_list of
      None \<Rightarrow> False
    | Some k \<Rightarrow> sublist ''frida'' k \<or> sublist ''gum'' k)
   = (sublist ''frida'' low \<or> sublist ''gum-js'' low \<or> sublist ''gum_js'' low)"
  by (simp add: keywords_list_def sublist_code)

lemma processLine_eq: "processLine line r = Some (spec_line_effect r line)"
  by (cases r)
     (simp add: processLine_def scanKeywords_eq first_keyword_frida countRwx_eq
        spec_line_effect_def spec_add_module_def spec_candidate_def spec_has_keyword_def
        spec_frida_line_def lowercase_eq)

subsection \<open>The maps scanner, as a whole\<close>

lemma mapsLoop_eq:
  "mapsLoop lines c r =
     Some (c + int (length (take (nat (MAX_LINES - c)) lines)),
           foldl spec_line_effect r (take (nat (MAX_LINES - c)) lines))"
proof (induction lines arbitrary: c r)
  case Nil
  show ?case by simp
next
  case (Cons line rest)
  show ?case
  proof (cases "c < MAX_LINES")
    case True
    then have n: "nat (MAX_LINES - c) = Suc (nat (MAX_LINES - (c + 1)))" by arith
    show ?thesis
      using True by (simp add: processLine_eq Cons.IH n del: take_Suc_Cons) (simp add: n)
  next
    case False
    then show ?thesis by simp
  qed
qed

lemma analyzeProcMaps_run_eq:
  "analyzeProcMaps_run maps =
     Some (int (length (take 10000 (lines_of maps))),
           foldl spec_line_effect MapsAnalysis_default (take 10000 (lines_of maps)))"
  by (cases maps) (simp_all add: analyzeProcMaps_run_def lines_of_def mapsLoop_eq MAX_LINES_def)

lemma analyzeProcMaps_eq:
  "analyzeProcMaps maps =
     Some (foldl spec_line_effect MapsAnalysis_default (take 10000 (lines_of maps)))"
  by (simp add: analyzeProcMaps_def analyzeProcMaps_run_eq)

lemma foldl_suspiciousModules:
  "suspiciousModules (foldl spec_line_effect r ls) =
     foldl spec_add_module (suspiciousModules r) (map spec_candidate ls)"
  by (induction ls arbitrary: r) (simp_all add: spec_line_effect_def)

lemma foldl_fridaLibLoaded:
  "fridaLibLoaded (foldl spec_line_effect r ls) = (fridaLibLoaded r \<or> list_ex spec_frida_line ls)"
  by (induction ls arbitrary: r) (simp_all add: spec_line_effect_def)

lemma foldl_hasRwx:
  "hasRwx (foldl spec_line_effect r ls) = (hasRwx r \<or> list_ex spec_rwx_line ls)"
  by (induction ls arbitrary: r) (simp_all add: spec_line_effect_def)

lemma foldl_rwxSegments:
  "rwxSegments (foldl spec_line_effect r ls) = rwxSegments r + int (length (filter spec_rwx_line ls))"
  by (induction ls arbitrary: r) (simp_all add: spec_line_effect_def)

lemma removeAll_filter_notin:
  "x \<in> A \<Longrightarrow> filter (\<lambda>m. m \<notin> A) (removeAll x xs) = filter (\<lambda>m. m \<notin> A) xs"
  by (induction xs) auto

lemma filter_notin_snoc:
  "filter (\<lambda>x. x \<noteq> m \<and> x \<notin> A) xs = filter (\<lambda>x. x \<notin> A) (removeAll m xs)"
  by (induction xs) auto

lemma foldl_add_module:
  "foldl spec_add_module acc (map spec_candidate ls) =
     acc @ filter (\<lambda>m. m \<notin> set acc) (spec_first_seen (List.map_filter spec_candidate ls))"
proof (induction ls arbitrary: acc)
  case Nil
  show ?case by (simp add: List.map_filter_simps)
next
  case (Cons l ls)
  show ?case
  proof (cases "spec_candidate l")
    case None
    then have "spec_add_module acc (spec_candidate l) = acc"
      by (simp add: spec_add_module_def)
    with None show ?thesis by (simp add: Cons.IH List.map_filter_simps)
  next
    case (Some m)
    show ?thesis
    proof (cases "m \<in> set acc")
      case True
      with Some have "spec_add_module acc (spec_candidate l) = acc"
        by (simp add: spec_add_module_def)
      with Some True show ?thesis
        by (simp add: Cons.IH List.map_filter_simps removeAll_filter_notin)
    next
      case False
      with Some have "spec_add_module acc (spec_candidate l) = acc @ [m]"
        by (simp add: spec_add_module_def)
      with Some False show ?thesis
        by (simp add: Cons.IH List.map_filter_simps filter_notin_snoc)
    qed
  qed
qed

lemma set_spec_first_seen: "set (spec_first_seen xs) = set xs"
  by (induction xs) auto

lemma distinct_spec_first_seen: "distinct (spec_first_seen xs)"
  by (induction xs) (auto simp: distinct_removeAll)

lemma analyzeProcMaps_modules:
  "map_option suspiciousModules (analyzeProcMaps maps) =
     Some (spec_first_seen (List.map_filter spec_candidate (take 10000 (lines_of maps))))"
  by (simp add: analyzeProcMaps_eq foldl_suspiciousModules foldl_add_module
      MapsAnalysis_default_def)

lemma spec_candidate_nonempty: "spec_candidate l = Some m \<Longrightarrow> m \<noteq> []"
  by (auto simp: spec_candidate_def split: if_splits)

lemma map_filter_candidates_nonempty: "[] \<notin> set (List.map_filter spec_candidate ls)"
  by (auto simp: List.map_filter_def dest: spec_candidate_nonempty)

text \<open>
  The counter of segments stays within the cap on the lines, so the \<^verbatim>\<open>int\<close> of the struct
  never overflows and \<^typ>\<open>int\<close> models it. The second lemma is the line of the
  specification's example with any slash-free text after \<^verbatim>\<open>rwxp\<close>.
\<close>

lemma rwxSegments_bounded:
  "\<exists>r. analyzeProcMaps maps = Some r \<and> 0 \<le> rwxSegments r \<and> rwxSegments r \<le> 10000 \<and>
       hasRwx r = (0 < rwxSegments r)"
proof -
  let ?ls = "take 10000 (lines_of maps)"
  have "length (filter spec_rwx_line ?ls) \<le> length ?ls" by (rule length_filter_le)
  then have le: "length (filter spec_rwx_line ?ls) \<le> 10000" by simp
  have "list_ex spec_rwx_line ?ls = (0 < length (filter spec_rwx_line ?ls))"
    by (simp add: list_ex_iff filter_empty_conv)
  with le show ?thesis
    by (simp add: analyzeProcMaps_eq foldl_rwxSegments foldl_hasRwx MapsAnalysis_default_def)
qed

lemma frida_agent_line_any_tail:
  assumes "CHR ''/'' \<notin> set tail"
  shows "analyzeProcMaps (Some [''/data/local/tmp/frida-agent.so rwxp'' @ tail]) =
     Some \<lparr>rwxSegments = 1, hasRwx = True, fridaLibLoaded = True,
           suspiciousModules = [''frida-agent.so'']\<rparr>"
proof -
  let ?p = "''/data/local/tmp/frida-agent.so rwxp''"
  let ?line = "?p @ tail"
  have pre: "sublist ?p ?line" by (rule sublist_append_rightI)
  have "sublist '' rwxp'' ?p" by code_simp
  with pre have rwx: "spec_rwx_line ?line"
    unfolding spec_rwx_line_def using sublist_order.order_trans by blast
  have lp: "spec_lowercase ?line = ?p @ spec_lowercase tail"
    by (simp add: spec_lowercase_def spec_lower_def)
  have "sublist ''frida'' ?p" by code_simp
  then have fr: "sublist ''frida'' (spec_lowercase ?line)"
    unfolding lp using sublist_order.order_trans sublist_append_rightI by blast
  then have frida: "spec_frida_line ?line" by (simp add: spec_frida_line_def)
  from fr have kw: "spec_has_keyword ?line"
    by (simp add: spec_has_keyword_def keywords_list_def)
  from assms have "takeWhile (\<lambda>c. c \<noteq> CHR ''/'') (rev tail @ rev ?p)
      = rev tail @ takeWhile (\<lambda>c. c \<noteq> CHR ''/'') (rev ?p)"
    by (intro takeWhile_append2) auto
  then have base: "spec_basename ?line = ''frida-agent.so''"
    by (simp add: spec_basename_def)
  from kw base have cand: "spec_candidate ?line = Some ''frida-agent.so''"
    by (simp add: spec_candidate_def)
  show ?thesis
    by (simp only: analyzeProcMaps_eq lines_of_def option.case)
       (simp add: spec_line_effect_def MapsAnalysis_default_def rwx frida cand spec_add_module_def
          del: append.simps)
qed

text \<open>A line without marker and without keyword leaves the result as it is.\<close>

lemma spec_line_effect_quiet:
  assumes "\<not> spec_rwx_line l \<and> \<not> spec_has_keyword l \<and> \<not> spec_frida_line l"
  shows "spec_line_effect r l = r"
  using assms
  by (cases r) (simp add: spec_line_effect_def spec_candidate_def spec_add_module_def)

lemma foldl_quiet_lines:
  assumes "\<not> spec_rwx_line l \<and> \<not> spec_has_keyword l \<and> \<not> spec_frida_line l"
  shows "foldl spec_line_effect r (replicate n l) = r"
  by (induction n) (simp_all add: spec_line_effect_quiet [OF assms])

subsection \<open>The file-descriptor scanner and the libc check\<close>

lemma isDotEntry_eq: "isDotEntry e = (take 1 (d_name e) = ''.'')"
  by (cases "d_name e") (simp_all add: isDotEntry_def)

lemma targetIsFrida_eq: "targetIsFrida t = spec_fd_keyword t"
  by (simp add: targetIsFrida_def spec_fd_keyword_def str_find_iffs)

lemma entryIsFrida_eq: "entryIsFrida e = spec_entry_matches e"
  by (auto simp: entryIsFrida_def spec_entry_matches_def isDotEntry_eq targetIsFrida_eq
      lowercase_eq split: option.splits)

lemma fdLoop_eq:
  "fdLoop entries c =
     (let capped = take (nat (MAX_FD_CHECK - c)) entries;
          before = takeWhile (\<lambda>e. \<not> spec_entry_matches e) capped
      in (c + int (length (take (Suc (length before)) capped)),
          list_ex spec_entry_matches capped))"
proof (induction entries arbitrary: c)
  case Nil
  show ?case by simp
next
  case (Cons e rest)
  show ?case
  proof (cases "c < MAX_FD_CHECK")
    case True
    then have n: "nat (MAX_FD_CHECK - c) = Suc (nat (MAX_FD_CHECK - (c + 1)))" by arith
    show ?thesis
    proof (cases "spec_entry_matches e")
      case True
      with \<open>c < MAX_FD_CHECK\<close> show ?thesis by (simp add: n entryIsFrida_eq)
    next
      case False
      with \<open>c < MAX_FD_CHECK\<close> show ?thesis
        by (simp add: n entryIsFrida_eq Cons.IH Let_def)
    qed
  next
    case False
    then show ?thesis by simp
  qed
qed

lemma checkFdForFrida_run_eq:
  "checkFdForFrida_run dir =
     (int (length (spec_examined (entries_of dir))),
      list_ex spec_entry_matches (take 100 (entries_of dir)))"
  by (cases dir)
     (simp_all add: checkFdForFrida_run_def entries_of_def spec_examined_def fdLoop_eq
        MAX_FD_CHECK_def Let_def)

lemma list_ex_examined:
  "list_ex P (take (Suc (length (takeWhile (\<lambda>e. \<not> P e) xs))) xs) = list_ex P xs"
proof (induction xs)
  case Nil
  show ?case by simp
next
  case (Cons x xs)
  then show ?case by (cases "P x") simp_all
qed

lemma examined_prefix_clean:
  "\<forall>e \<in> set (butlast (take (Suc (length (takeWhile (\<lambda>e. \<not> P e) xs))) xs)). \<not> P e"
proof (induction xs)
  case Nil
  show ?case by simp
next
  case (Cons x xs)
  show ?case
  proof (cases "P x")
    case True
    then show ?thesis by simp
  next
    case False
    with Cons show ?thesis
      by (cases "take (Suc (length (takeWhile (\<lambda>e. \<not> P e) xs))) xs") auto
  qed
qed

lemma examined_last:
  "list_ex P xs \<Longrightarrow> P (last (take (Suc (length (takeWhile (\<lambda>e. \<not> P e) xs))) xs))"
proof (induction xs)
  case Nil
  then show ?case by simp
next
  case (Cons x xs)
  show ?case
  proof (cases "P x")
    case True
    then show ?thesis by simp
  next
    case False
    with Cons.prems have ex: "list_ex P xs" by simp
    then have "xs \<noteq> []" by auto
    then have "take (Suc (length (takeWhile (\<lambda>e. \<not> P e) xs))) xs \<noteq> []" by (cases xs) auto
    with False Cons.IH [OF ex] show ?thesis by simp
  qed
qed

lemma checkLibcSymbol_eq:
  "checkLibcSymbol dl =
     (case dl of
        None \<Rightarrow> \<lparr>soPath = [], unexpected = False\<rparr>
      | Some info \<Rightarrow>
          (case dli_fname info of
             None \<Rightarrow> \<lparr>soPath = [], unexpected = False\<rparr>
           | Some p \<Rightarrow> \<lparr>soPath = p, unexpected = (\<not> spec_accepted_path p)\<rparr>))"
  by (simp add: checkLibcSymbol_def LibcCheck_default_def spec_accepted_path_def str_find_iffs
      Let_def split: option.splits)

lemma fdLoop_stops:
  "length pre < nat (MAX_FD_CHECK - c) \<Longrightarrow> spec_entry_matches e \<Longrightarrow>
     fdLoop (pre @ e # rest) c = fdLoop (pre @ [e]) c"
proof (induction pre arbitrary: c)
  case Nil
  then show ?case by (simp add: entryIsFrida_eq)
next
  case (Cons p pre)
  from Cons.prems have lt: "c < MAX_FD_CHECK" by simp
  from Cons.prems have "length pre < nat (MAX_FD_CHECK - (c + 1))" by simp
  from Cons.IH [OF this Cons.prems(2)] lt show ?case by simp
qed

subsection \<open>The serializer\<close>

lemma escapeLoop_eq: "escapeLoop s acc = acc @ concat (map spec_escape_char s)"
  by (induction s arbitrary: acc) (simp_all add: spec_escape_char_def)

lemma escapeJsonString_eq: "escapeJsonString s = concat (map spec_escape_char s)"
  by (simp add: escapeJsonString_def escapeLoop_eq)

lemma escapeJsonString_Nil: "escapeJsonString [] = []"
  by (simp add: escapeJsonString_eq)

lemma escapeJsonString_Cons:
  "escapeJsonString (c # cs) = spec_escape_char c @ escapeJsonString cs"
  by (simp add: escapeJsonString_eq)

lemma quote_neq_backslash: "quote_char \<noteq> backslash_char"
  by (simp add: quote_char_def backslash_char_def)

lemma json_escape_special:
  "json_escape quote_char = Some quote_char" "json_escape backslash_char = Some backslash_char"
  by (simp_all add: json_escape_def)

lemma read_string_body_escaped:
  "list_all json_plain s \<Longrightarrow>
     read_string_body (escapeJsonString s @ quote_char # rest) = Some (s, rest)"
proof (induction s)
  case Nil
  show ?case by (simp add: escapeJsonString_Nil)
next
  case (Cons c cs)
  then have ih: "read_string_body (escapeJsonString cs @ quote_char # rest) = Some (cs, rest)"
    and pl: "json_plain c" by simp_all
  show ?case
  proof (cases "c = quote_char \<or> c = backslash_char")
    case True
    then show ?thesis
      using quote_neq_backslash
      by (auto simp: escapeJsonString_Cons spec_escape_char_def ih json_escape_special)
  next
    case False
    then show ?thesis
      by (simp add: escapeJsonString_Cons spec_escape_char_def ih pl)
  qed
qed


lemma arrayLoop_eq:
  "i < length vec \<Longrightarrow> arrayLoop vec i json = json @ spec_array_elements (drop i vec)"
proof (induction vec i json rule: arrayLoop.induct)
  case (1 vec i json)
  from "1.prems" obtain v rest where d: "drop i vec = v # rest"
    by (cases "drop i vec") auto
  then have v: "vec ! i = v" and r: "drop (Suc i) vec = rest"
    using "1.prems" by (metis Cons_nth_drop_Suc list.inject)+
  show ?case
  proof (cases "Suc i < length vec")
    case True
    then obtain w rest' where rest: "rest = w # rest'"
      using r by (cases rest) auto
    have lt: "i < length vec - 1" using True by arith
    from "1.IH" [OF "1.prems"] True
    have "arrayLoop vec (i + 1)
            (json @ [quote_char] @ escapeJsonString (vec ! i) @ [quote_char] @ '','')
          = (json @ [quote_char] @ escapeJsonString (vec ! i) @ [quote_char] @ '','')
            @ spec_array_elements (drop (i + 1) vec)"
      using lt by (simp add: Let_def)
    then show ?thesis
      using "1.prems" lt
      by (subst arrayLoop.simps) (simp add: Let_def d v r rest)
  next
    case False
    with "1.prems" have last: "i = length vec - 1" and nl: "\<not> i < length vec - 1" by arith+
    from False r have "rest = []" by simp
    have stop: "arrayLoop vec (Suc i) x = x" for x
      using False by (subst arrayLoop.simps) simp
    show ?thesis
      using "1.prems" nl
      by (subst arrayLoop.simps) (simp add: Let_def stop d v \<open>rest = []\<close>)
  qed
qed

lemma vectorToJsonArray_eq:
  "vectorToJsonArray vec =
     (if vec = [] then ''[]'' else ''['' @ spec_array_elements vec @ '']'')"
  by (simp add: vectorToJsonArray_def arrayLoop_eq)

subsection \<open>Integers and their decimal text\<close>


lemma digit_chars: "map digit_char [0, 1, 2, 3, 4, 5, 6, 7, 8, 9] = ''0123456789''"
  by code_simp

lemma digit_char_cases:
  assumes "d < 10"
  shows "digit_char d \<in> set ''0123456789''"
proof -
  from assms have "d \<in> set [0, 1, 2, 3, 4, 5, 6, 7, 8, 9]" by auto
  then have "digit_char d \<in> set (map digit_char [0, 1, 2, 3, 4, 5, 6, 7, 8, 9])"
    unfolding set_map by (rule imageI)
  then show ?thesis by (simp only: digit_chars)
qed

lemma is_number_char_digit: "d < 10 \<Longrightarrow> is_number_char (digit_char d)"
  using digit_char_cases [of d] by (auto simp: is_number_char_def)

lemma digit_char_not_minus: "d < 10 \<Longrightarrow> digit_char d \<noteq> CHR ''-''"
proof
  assume "d < 10" and "digit_char d = CHR ''-''"
  then have "of_char (digit_char d) = (of_char (CHR ''-'') :: nat)" by simp
  with \<open>d < 10\<close> show False by (simp add: digit_char_def)
qed



lemma digits_of_shape:
  "digits_of n \<noteq> [] \<and> list_all is_number_char (digits_of n) \<and> hd (digits_of n) \<noteq> CHR ''-''"
proof (induction n rule: digits_of.induct)
  case (1 n)
  show ?case
  proof (cases "n < 10")
    case True
    then show ?thesis
      by (subst (1 2 3) digits_of.simps) (simp add: is_number_char_digit digit_char_not_minus)
  next
    case False
    with "1.IH" have ih: "digits_of (n div 10) \<noteq> []"
      "list_all is_number_char (digits_of (n div 10))"
      "hd (digits_of (n div 10)) \<noteq> CHR ''-''" by simp_all
    have "n mod 10 < 10" by simp
    then have "is_number_char (digit_char (n mod 10))" by (rule is_number_char_digit)
    with ih show ?thesis
      using False by (subst (1 2 3) digits_of.simps) simp
  qed
qed


lemma json_digit_digit_char: "d < 10 \<Longrightarrow> json_digit (digit_char d)"
  using digit_char_cases [of d] by (simp add: json_digit_def)

lemma digit_char_not_zero:
  assumes "0 < d" and "d < 10"
  shows "digit_char d \<noteq> CHR ''0''"
proof
  assume "digit_char d = CHR ''0''"
  then have "of_char (digit_char d) = (of_char (CHR ''0'') :: nat)" by simp
  with assms show False by (simp add: digit_char_def)
qed

lemma digits_of_digits: "list_all json_digit (digits_of n)"
proof (induction n rule: digits_of.induct)
  case (1 n)
  show ?case
  proof (cases "n < 10")
    case True
    then show ?thesis
      by (subst digits_of.simps) (simp add: json_digit_digit_char)
  next
    case False
    have "n mod 10 < 10" by simp
    then have "json_digit (digit_char (n mod 10))" by (rule json_digit_digit_char)
    with False "1.IH" show ?thesis
      by (subst digits_of.simps) simp
  qed
qed

lemma digits_of_lead: "0 < n \<Longrightarrow> hd (digits_of n) \<noteq> CHR ''0''"
proof (induction n rule: digits_of.induct)
  case (1 n)
  show ?case
  proof (cases "n < 10")
    case True
    with "1.prems" show ?thesis
      by (subst digits_of.simps) (simp add: digit_char_not_zero)
  next
    case False
    then have pos: "0 < n div 10" by simp
    from digits_of_shape [of "n div 10"] have ne: "digits_of (n div 10) \<noteq> []" by simp
    from "1.IH" [OF False pos] ne False show ?thesis
      by (subst digits_of.simps) simp
  qed
qed

lemma digits_of_zero: "digits_of 0 = ''0''"
  by code_simp

lemma json_int_part_digits_of: "json_int_part (digits_of n)"
proof (cases "n = 0")
  case True
  then show ?thesis by (simp add: digits_of_zero json_int_part_def json_digit_def)
next
  case False
  then have "hd (digits_of n) \<noteq> CHR ''0''" by (simp add: digits_of_lead)
  with digits_of_shape [of n] digits_of_digits [of n] show ?thesis
    by (simp add: json_int_part_def)
qed

lemma takeWhile_all_digits: "list_all P xs \<Longrightarrow> takeWhile P xs = xs \<and> dropWhile P xs = []"
  by (induction xs) simp_all

lemma json_number_digits_of: "json_number (digits_of n)"
proof -
  from digits_of_shape [of n] obtain c cs where d: "digits_of n = c # cs" and c: "c \<noteq> CHR ''-''"
    by (cases "digits_of n") auto
  from takeWhile_all_digits [OF digits_of_digits [of n]]
  have tw: "takeWhile json_digit (c # cs) = c # cs" and dw: "dropWhile json_digit (c # cs) = []"
    by (simp_all only: d)
  from json_int_part_digits_of [of n] have ip: "json_int_part (c # cs)" by (simp only: d)
  show ?thesis
    unfolding json_number_def d
    using c by (simp only: list.case if_False Let_def tw dw ip json_frac_exp_def simp_thms)
qed

lemma json_number_show_int: "json_number (show_int i)"
proof (cases "i < 0")
  case True
  let ?ds = "digits_of (nat (- i))"
  from takeWhile_all_digits [OF digits_of_digits [of "nat (- i)"]]
  have tw: "takeWhile json_digit ?ds = ?ds" and dw: "dropWhile json_digit ?ds = []"
    by simp_all
  from True show ?thesis
    by (simp add: show_int_def json_number_def tw dw json_int_part_digits_of json_frac_exp_def)
next
  case False
  then show ?thesis by (simp add: show_int_def json_number_digits_of)
qed

lemma json_digit_number_char: "json_digit c \<Longrightarrow> is_number_char c"
  by (auto simp: json_digit_def is_number_char_def)

lemma json_exp_chars: "json_exp r \<Longrightarrow> list_all is_number_char r"
proof (cases r)
  case Nil
  then show ?thesis by simp
next
  case (Cons c r1)
  assume e: "json_exp r"
  show ?thesis
  proof (cases r1)
    case Nil
    with e Cons show ?thesis by (simp add: json_exp_def)
  next
    case (Cons s r2)
    with e \<open>r = c # r1\<close> show ?thesis
      by (auto simp: json_exp_def is_number_char_def list_all_iff
          dest!: json_digit_number_char split: if_splits)
  qed
qed

lemma json_frac_exp_chars: "json_frac_exp r \<Longrightarrow> list_all is_number_char r"
proof (cases r)
  case Nil
  then show ?thesis by simp
next
  case (Cons c r1)
  assume f: "json_frac_exp r"
  show ?thesis
  proof (cases "c = CHR ''.''")
    case True
    with f Cons have ex: "json_exp (dropWhile json_digit r1)" by (simp add: json_frac_exp_def)
    have "list_all is_number_char (takeWhile json_digit r1)"
      by (auto simp: list_all_iff dest: set_takeWhileD json_digit_number_char)
    with json_exp_chars [OF ex]
    have "list_all is_number_char (takeWhile json_digit r1 @ dropWhile json_digit r1)"
      by (simp only: list_all_append simp_thms)
    then have "list_all is_number_char r1" by (simp only: takeWhile_dropWhile_id)
    with True Cons show ?thesis by (simp add: is_number_char_def)
  next
    case False
    with f Cons have "json_exp r" by (simp add: json_frac_exp_def)
    then show ?thesis by (rule json_exp_chars)
  qed
qed

lemma json_number_chars:
  assumes "json_number t"
  shows "t \<noteq> [] \<and> list_all is_number_char t"
proof -
  define u where "u = (case t of [] \<Rightarrow> [] | c # r \<Rightarrow> if c = CHR ''-'' then r else t)"
  from assms have ip: "json_int_part (takeWhile json_digit u)"
    and fe: "json_frac_exp (dropWhile json_digit u)"
    by (simp_all add: json_number_def u_def Let_def)
  from ip have "takeWhile json_digit u \<noteq> []" by (simp add: json_int_part_def)
  then have une: "u \<noteq> []" by auto
  have "list_all is_number_char (takeWhile json_digit u)"
    by (auto simp: list_all_iff dest: set_takeWhileD json_digit_number_char)
  with json_frac_exp_chars [OF fe]
  have "list_all is_number_char (takeWhile json_digit u @ dropWhile json_digit u)"
    by (simp only: list_all_append simp_thms)
  then have uall: "list_all is_number_char u" by (simp only: takeWhile_dropWhile_id)
  show ?thesis
  proof (cases t)
    case Nil
    with une show ?thesis by (simp add: u_def)
  next
    case (Cons c r)
    with uall show ?thesis
      by (auto simp: u_def is_number_char_def split: if_splits)
  qed
qed

subsection \<open>The reader on the serializer's output\<close>

lemma read_number_token:
  assumes "json_number t" and "\<not> is_number_char c"
  shows "read_number (t @ c # rest) = Some (t, c # rest)"
proof -
  from json_number_chars [OF assms(1)] have all: "\<forall>x \<in> set t. is_number_char x"
    by (simp add: list_all_iff)
  from all assms(2) have tw: "takeWhile is_number_char (t @ c # rest) = t"
    by (simp add: takeWhile_append2)
  from all assms(2) have dw: "dropWhile is_number_char (t @ c # rest) = c # rest"
    by (simp add: dropWhile_append2)
  show ?thesis
    by (simp add: read_number_def tw dw assms(1))
qed

lemma number_char_facts:
  "\<not> is_number_char quote_char" "\<not> is_number_char CHR ''[''"
  "\<not> is_number_char CHR ''t''" "\<not> is_number_char CHR ''f''"
  "\<not> is_number_char CHR '',''" "\<not> is_number_char CHR ''}''"
  by (simp_all add: is_number_char_def quote_char_def)

lemma read_value_number:
  assumes "json_number t" and "\<not> is_number_char c"
  shows "read_value (t @ c # rest) = Some (JNumber t, c # rest)"
proof -
  from json_number_chars [OF assms(1)] obtain x xs where t: "t = x # xs" and x: "is_number_char x"
    by (cases t) auto
  from x number_char_facts have nx: "x \<noteq> quote_char" "x \<noteq> CHR ''[''" "x \<noteq> CHR ''t''" "x \<noteq> CHR ''f''"
    by auto
  from read_number_token [OF assms, of rest]
  have "read_number (x # xs @ c # rest) = Some (x # xs, c # rest)" by (simp add: t)
  with nx show ?thesis
    by (simp add: read_value_def t)
qed

lemma read_value_bool: "read_value (show_bool b @ rest) = Some (JBool b, rest)"
  by (cases b) (simp_all add: read_value_def show_bool_def quote_char_def)

lemma read_value_string:
  "list_all json_plain s \<Longrightarrow>
     read_value (quote_char # escapeJsonString s @ quote_char # rest) = Some (JString s, rest)"
  by (simp add: read_value_def read_string_body_escaped)

lemma read_elements_array:
  "vs \<noteq> [] \<Longrightarrow> length vs \<le> n \<Longrightarrow> list_all (list_all json_plain) vs \<Longrightarrow>
     read_elements n (spec_array_elements vs @ CHR '']'' # rest) = Some (vs, rest)"
proof (induction vs arbitrary: n rule: spec_array_elements.induct)
  case 1
  then show ?case by simp
next
  case (2 v)
  then obtain m where n: "n = Suc m" by (cases n) auto
  from "2.prems" have "list_all json_plain v" by simp
  then show ?case
    by (simp add: n read_string_body_escaped)
next
  case (3 v w vs)
  then obtain m where n: "n = Suc m" by (cases n) auto
  with "3.prems" have "length (w # vs) \<le> m" and "list_all (list_all json_plain) (w # vs)"
    and pv: "list_all json_plain v" by simp_all
  with "3.IH" have ih: "read_elements m (spec_array_elements (w # vs) @ CHR '']'' # rest) = Some (w # vs, rest)"
    by simp
  from pv have "read_string_body (escapeJsonString v @ quote_char # CHR '','' # spec_array_elements (w # vs) @ CHR '']'' # rest)
        = Some (v, CHR '','' # spec_array_elements (w # vs) @ CHR '']'' # rest)"
    by (rule read_string_body_escaped)
  then show ?case
    using ih by (simp add: n)
qed

lemma length_array_elements: "length vs \<le> length (spec_array_elements vs)"
  by (induction vs rule: spec_array_elements.induct) simp_all

lemma spec_array_elements_hd:
  "vs \<noteq> [] \<Longrightarrow> \<exists>tl. spec_array_elements vs = quote_char # tl"
  by (induction vs rule: spec_array_elements.induct) simp_all

lemma read_value_array:
  assumes "list_all (list_all json_plain) vs"
  shows "read_value (vectorToJsonArray vs @ rest) = Some (JArray vs, rest)"
proof (cases "vs = []")
  case True
  then show ?thesis
    by (simp add: vectorToJsonArray_eq read_value_def quote_char_def)
next
  case False
  from spec_array_elements_hd [OF False] obtain tl where tl: "spec_array_elements vs = quote_char # tl"
    by blast
  let ?cs = "spec_array_elements vs @ CHR '']'' # rest"
  have len: "length vs \<le> length ?cs"
    using length_array_elements [of vs] by simp
  have el: "read_elements (length ?cs) ?cs = Some (vs, rest)"
    by (rule read_elements_array [OF False len assms])
  have cs: "?cs = quote_char # tl @ CHR '']'' # rest" by (simp add: tl)
  have "read_value (CHR ''['' # ?cs) = Some (JArray vs, rest)"
    unfolding read_value_def using el
    by (simp add: cs quote_char_def)
  with False show ?thesis
    by (simp add: vectorToJsonArray_eq)
qed

lemma escape_plain:
  "\<forall>c \<in> set k. c \<noteq> quote_char \<and> c \<noteq> backslash_char \<Longrightarrow> escapeJsonString k = k"
  by (induction k) (simp_all add: escapeJsonString_Nil escapeJsonString_Cons spec_escape_char_def)

lemma read_string_body_plain:
  assumes "\<forall>c \<in> set k. c \<noteq> quote_char \<and> c \<noteq> backslash_char" and "list_all json_plain k"
  shows "read_string_body (k @ quote_char # rest) = Some (k, rest)"
  using read_string_body_escaped [OF assms(2), of rest] escape_plain [OF assms(1)] by simp

lemma read_members_step:
  assumes "\<forall>c \<in> set k. c \<noteq> quote_char \<and> c \<noteq> backslash_char" and "list_all json_plain k"
    and "read_value s3 = Some (v, CHR '','' # s5)"
  shows "read_members (Suc n) (quote_char # k @ quote_char # CHR '':'' # s3) =
           map_option (apfst ((#) (k, v))) (read_members n s5)"
  using read_string_body_plain [OF assms(1,2), of "CHR '':'' # s3"] assms(3)
  by simp

lemma read_members_last:
  assumes "\<forall>c \<in> set k. c \<noteq> quote_char \<and> c \<noteq> backslash_char" and "list_all json_plain k"
    and "read_value s3 = Some (v, CHR ''}'' # s5)"
  shows "read_members (Suc n) (quote_char # k @ quote_char # CHR '':'' # s3) = Some ([(k, v)], s5)"
  using read_string_body_plain [OF assms(1,2), of "CHR '':'' # s3"] assms(3)
  by simp

lemma field_names_plain:
  "\<forall>c \<in> set ''rwxSegments''. c \<noteq> quote_char \<and> c \<noteq> backslash_char"
  "\<forall>c \<in> set ''hasRwx''. c \<noteq> quote_char \<and> c \<noteq> backslash_char"
  "\<forall>c \<in> set ''fridaLibLoaded''. c \<noteq> quote_char \<and> c \<noteq> backslash_char"
  "\<forall>c \<in> set ''fdFrida''. c \<noteq> quote_char \<and> c \<noteq> backslash_char"
  "\<forall>c \<in> set ''libcGetpidSo''. c \<noteq> quote_char \<and> c \<noteq> backslash_char"
  "\<forall>c \<in> set ''libcGetpidUnexpected''. c \<noteq> quote_char \<and> c \<noteq> backslash_char"
  "\<forall>c \<in> set ''nativeTimeMs''. c \<noteq> quote_char \<and> c \<noteq> backslash_char"
  "\<forall>c \<in> set ''suspiciousModules''. c \<noteq> quote_char \<and> c \<noteq> backslash_char"
  by (simp_all add: quote_char_def backslash_char_def)

lemma field_names_ascii:
  "list_all json_plain ''rwxSegments''"
  "list_all json_plain ''hasRwx''"
  "list_all json_plain ''fridaLibLoaded''"
  "list_all json_plain ''fdFrida''"
  "list_all json_plain ''libcGetpidSo''"
  "list_all json_plain ''libcGetpidUnexpected''"
  "list_all json_plain ''nativeTimeMs''"
  "list_all json_plain ''suspiciousModules''"
  by (simp_all add: json_plain_def)

lemma read_object_buildJson:
  assumes "json_number t" and "list_all json_plain (soPath l)"
    and "list_all (list_all json_plain) (suspiciousModules m)"
  shows "read_object (buildJson m fd l t) =
     Some [(''rwxSegments'', JNumber (show_int (rwxSegments m))),
           (''hasRwx'', JBool (hasRwx m)),
           (''fridaLibLoaded'', JBool (fridaLibLoaded m)),
           (''fdFrida'', JBool fd),
           (''libcGetpidSo'', JString (soPath l)),
           (''libcGetpidUnexpected'', JBool (unexpected l)),
           (''nativeTimeMs'', JNumber t),
           (''suspiciousModules'', JArray (suspiciousModules m))]"
proof -
  define s8 where "s8 = quote_char # ''suspiciousModules'' @ quote_char # CHR '':'' #
      (vectorToJsonArray (suspiciousModules m) @ CHR ''}'' # [])"
  define s7 where "s7 = quote_char # ''nativeTimeMs'' @ quote_char # CHR '':'' # (t @ CHR '','' # s8)"
  define s6 where "s6 = quote_char # ''libcGetpidUnexpected'' @ quote_char # CHR '':'' #
      (show_bool (unexpected l) @ CHR '','' # s7)"
  define s5 where "s5 = quote_char # ''libcGetpidSo'' @ quote_char # CHR '':'' #
      (quote_char # escapeJsonString (soPath l) @ quote_char # CHR '','' # s6)"
  define s4 where "s4 = quote_char # ''fdFrida'' @ quote_char # CHR '':'' #
      (show_bool fd @ CHR '','' # s5)"
  define s3 where "s3 = quote_char # ''fridaLibLoaded'' @ quote_char # CHR '':'' #
      (show_bool (fridaLibLoaded m) @ CHR '','' # s4)"
  define s2 where "s2 = quote_char # ''hasRwx'' @ quote_char # CHR '':'' #
      (show_bool (hasRwx m) @ CHR '','' # s3)"
  define s1 where "s1 = quote_char # ''rwxSegments'' @ quote_char # CHR '':'' #
      (show_int (rwxSegments m) @ CHR '','' # s2)"
  have shape: "buildJson m fd l t = CHR ''{'' # s1"
    by (simp add: buildJson_def s1_def s2_def s3_def s4_def s5_def s6_def s7_def s8_def)
  have r8: "read_members (Suc n) s8 = Some ([(''suspiciousModules'', JArray (suspiciousModules m))], [])" for n
    unfolding s8_def by (rule read_members_last [OF field_names_plain(8) field_names_ascii(8) read_value_array [OF assms(3)]])
  have r7: "read_members (Suc (Suc n)) s7 =
      Some ([(''nativeTimeMs'', JNumber t), (''suspiciousModules'', JArray (suspiciousModules m))], [])" for n
    unfolding s7_def
    by (subst read_members_step [OF field_names_plain(7) field_names_ascii(7)
          read_value_number [OF assms(1) number_char_facts(5)]])
       (simp add: r8 del: read_members.simps)
  have r6: "read_members (Suc (Suc (Suc n))) s6 =
      Some ([(''libcGetpidUnexpected'', JBool (unexpected l)),
             (''nativeTimeMs'', JNumber t), (''suspiciousModules'', JArray (suspiciousModules m))], [])" for n
    unfolding s6_def
    by (subst read_members_step [OF field_names_plain(6) field_names_ascii(6) read_value_bool]) (simp add: r7 del: read_members.simps)
  have r5: "read_members (Suc (Suc (Suc (Suc n)))) s5 =
      Some ([(''libcGetpidSo'', JString (soPath l)),
             (''libcGetpidUnexpected'', JBool (unexpected l)),
             (''nativeTimeMs'', JNumber t), (''suspiciousModules'', JArray (suspiciousModules m))], [])" for n
    unfolding s5_def
    by (subst read_members_step [OF field_names_plain(5) field_names_ascii(5)
          read_value_string [OF assms(2)]]) (simp add: r6 del: read_members.simps)
  have r4: "read_members (Suc (Suc (Suc (Suc (Suc n))))) s4 =
      Some ([(''fdFrida'', JBool fd),
             (''libcGetpidSo'', JString (soPath l)),
             (''libcGetpidUnexpected'', JBool (unexpected l)),
             (''nativeTimeMs'', JNumber t), (''suspiciousModules'', JArray (suspiciousModules m))], [])" for n
    unfolding s4_def
    by (subst read_members_step [OF field_names_plain(4) field_names_ascii(4) read_value_bool]) (simp add: r5 del: read_members.simps)
  have r3: "read_members (Suc (Suc (Suc (Suc (Suc (Suc n)))))) s3 =
      Some ([(''fridaLibLoaded'', JBool (fridaLibLoaded m)),
             (''fdFrida'', JBool fd),
             (''libcGetpidSo'', JString (soPath l)),
             (''libcGetpidUnexpected'', JBool (unexpected l)),
             (''nativeTimeMs'', JNumber t), (''suspiciousModules'', JArray (suspiciousModules m))], [])" for n
    unfolding s3_def
    by (subst read_members_step [OF field_names_plain(3) field_names_ascii(3) read_value_bool]) (simp add: r4 del: read_members.simps)
  have r2: "read_members (Suc (Suc (Suc (Suc (Suc (Suc (Suc n))))))) s2 =
      Some ([(''hasRwx'', JBool (hasRwx m)),
             (''fridaLibLoaded'', JBool (fridaLibLoaded m)),
             (''fdFrida'', JBool fd),
             (''libcGetpidSo'', JString (soPath l)),
             (''libcGetpidUnexpected'', JBool (unexpected l)),
             (''nativeTimeMs'', JNumber t), (''suspiciousModules'', JArray (suspiciousModules m))], [])" for n
    unfolding s2_def
    by (subst read_members_step [OF field_names_plain(2) field_names_ascii(2) read_value_bool]) (simp add: r3 del: read_members.simps)
  have r1: "read_members (Suc (Suc (Suc (Suc (Suc (Suc (Suc (Suc n)))))))) s1 =
      Some ([(''rwxSegments'', JNumber (show_int (rwxSegments m))),
             (''hasRwx'', JBool (hasRwx m)),
             (''fridaLibLoaded'', JBool (fridaLibLoaded m)),
             (''fdFrida'', JBool fd),
             (''libcGetpidSo'', JString (soPath l)),
             (''libcGetpidUnexpected'', JBool (unexpected l)),
             (''nativeTimeMs'', JNumber t), (''suspiciousModules'', JArray (suspiciousModules m))], [])" for n
    unfolding s1_def
    by (subst read_members_step [OF field_names_plain(1) field_names_ascii(1)
          read_value_number [OF json_number_show_int number_char_facts(5)]]) (simp add: r2 del: read_members.simps)
  have "8 \<le> length s1"
    by (simp add: s1_def)
  then obtain k where k: "length s1 = 8 + k"
    using le_iff_add by blast
  have "8 + k = Suc (Suc (Suc (Suc (Suc (Suc (Suc (Suc k)))))))" by simp
  with k obtain n where "length s1 = Suc (Suc (Suc (Suc (Suc (Suc (Suc (Suc n)))))))"
    by simp
  with r1 [of n] have rm: "read_members (length s1) s1 = Some
     ([(''rwxSegments'', JNumber (show_int (rwxSegments m))),
             (''hasRwx'', JBool (hasRwx m)),
             (''fridaLibLoaded'', JBool (fridaLibLoaded m)),
             (''fdFrida'', JBool fd),
             (''libcGetpidSo'', JString (soPath l)),
             (''libcGetpidUnexpected'', JBool (unexpected l)),
             (''nativeTimeMs'', JNumber t), (''suspiciousModules'', JArray (suspiciousModules m))], [])"
    by simp
  have hd: "\<exists>tl. s1 = quote_char # tl" by (simp add: s1_def)
  then obtain tl where tl: "s1 = quote_char # tl" by blast
  have "quote_char \<noteq> CHR ''}''" by (simp add: quote_char_def)
  with rm show ?thesis
    unfolding shape read_object_def
    by (simp add: tl)
qed


text \<open>Without a zero byte in the strings, the C string of the report is the whole report.\<close>

lemma json_plain_not_nul: "json_plain c \<Longrightarrow> c \<noteq> CHR 0x00"
  by (auto simp: json_plain_def)

lemma plain_no_nul: "list_all json_plain s \<Longrightarrow> CHR 0x00 \<notin> set s"
  by (auto simp: list_all_iff dest: json_plain_not_nul)

lemma nul_not_number_char: "\<not> is_number_char (CHR 0x00)"
  by (simp add: is_number_char_def)

lemma number_chars_no_nul:
  assumes "list_all is_number_char s"
  shows "CHR 0x00 \<notin> set s"
proof
  assume "CHR 0x00 \<in> set s"
  with assms have "is_number_char (CHR 0x00)" by (simp add: list_all_iff)
  with nul_not_number_char show False by contradiction
qed

lemma set_escapeJsonString: "set (escapeJsonString s) \<subseteq> insert backslash_char (set s)"
  by (induction s) (auto simp: escapeJsonString_Nil escapeJsonString_Cons spec_escape_char_def)

lemma escaped_no_nul:
  assumes "list_all json_plain s"
  shows "CHR 0x00 \<notin> set (escapeJsonString s)"
proof
  assume "CHR 0x00 \<in> set (escapeJsonString s)"
  with set_escapeJsonString [of s] have "CHR 0x00 = backslash_char \<or> CHR 0x00 \<in> set s" by auto
  with plain_no_nul [OF assms] show False by (simp add: backslash_char_def)
qed

lemma array_elements_no_nul:
  "list_all (list_all json_plain) vs \<Longrightarrow> CHR 0x00 \<notin> set (spec_array_elements vs)"
  by (induction vs rule: spec_array_elements.induct)
     (simp_all add: escaped_no_nul quote_char_def)

lemma show_bool_no_nul: "CHR 0x00 \<notin> set (show_bool b)"
  by (simp add: show_bool_def)

lemma buildJson_no_nul:
  assumes "json_number t" and "list_all json_plain (soPath l)"
    and "list_all (list_all json_plain) (suspiciousModules m)"
  shows "CHR 0x00 \<notin> set (buildJson m fd l t)"
proof -
  from json_number_chars [OF assms(1)] have t: "CHR 0x00 \<notin> set t"
    by (simp add: number_chars_no_nul)
  from json_number_chars [OF json_number_show_int [of "rwxSegments m"]]
  have i: "CHR 0x00 \<notin> set (show_int (rwxSegments m))"
    by (simp add: number_chars_no_nul)
  from array_elements_no_nul [OF assms(3)]
  have a: "CHR 0x00 \<notin> set (vectorToJsonArray (suspiciousModules m))"
    by (simp add: vectorToJsonArray_eq)
  from t i a escaped_no_nul [OF assms(2)] show ?thesis
    by (simp add: buildJson_def show_bool_no_nul quote_char_def)
qed

lemma c_string_buildJson:
  assumes "json_number t" and "list_all json_plain (soPath l)"
    and "list_all (list_all json_plain) (suspiciousModules m)"
  shows "c_string (buildJson m fd l t) = buildJson m fd l t"
  unfolding c_string_def using buildJson_no_nul [OF assms] by (rule takeWhile_all)

lemma collectNativeSignals_eq:
  "analyzeProcMaps maps = Some r \<Longrightarrow>
     collectNativeSignals maps dir dl t =
       Some (c_string (buildJson r (checkFdForFrida dir) (checkLibcSymbol dl) t))"
  by (simp add: collectNativeSignals_def)

text \<open>
  On strings of ASCII bytes from the space on, the report is one object with the eight
  members of the contract, in its order, and nothing after the closing brace.
\<close>

lemma report_object_ascii:
  assumes "json_number elapsedText" and "analyzeProcMaps maps = Some r"
    and "list_all json_plain (soPath (checkLibcSymbol dl))"
    and "list_all (list_all json_plain) (suspiciousModules r)"
  shows "\<exists>out. collectNativeSignals maps dir dl elapsedText = Some out \<and>
           read_object out =
             Some [(''rwxSegments'', JNumber (show_int (rwxSegments r))),
                   (''hasRwx'', JBool (hasRwx r)),
                   (''fridaLibLoaded'', JBool (fridaLibLoaded r)),
                   (''fdFrida'', JBool (checkFdForFrida dir)),
                   (''libcGetpidSo'', JString (soPath (checkLibcSymbol dl))),
                   (''libcGetpidUnexpected'', JBool (unexpected (checkLibcSymbol dl))),
                   (''nativeTimeMs'', JNumber elapsedText),
                   (''suspiciousModules'', JArray (suspiciousModules r))]"
  using collectNativeSignals_eq [OF assms(2), of dir dl elapsedText]
    c_string_buildJson [OF assms(1,3,4), of "checkFdForFrida dir"]
    read_object_buildJson [OF assms(1,3,4), of "checkFdForFrida dir"]
  by simp

section \<open>The claims\<close>

text \<open>
  C1. The claim asks for one JSON object on every invocation. The code does not deliver
  it when a module name holds a control byte: the maps line
  \<^verbatim>\<open>7f1c2000-7f1c3000 r-xp 00000000 fd:01 99 /data/local/tmp/frida<TAB>agent.so\<close> gives a
  report in which the byte 0x09 stands between the quotes of the module name, since
  \<open>escapeJsonString\<close> escapes the quote and the backslash only. The format forbids a control
  byte inside a string, and the text does not read as an object. (On strings of ASCII
  bytes from the space on it does: lemma \<open>report_object_ascii\<close>.)
\<close>

theorem report_control_byte:
  "map_option
     (sublist ([quote_char] @ ''frida'' @ [CHR 0x09] @ ''agent.so'' @ [quote_char]))
     (collectNativeSignals (Some [''7f1c2000-7f1c3000 r-xp 00000000 fd:01 99 /data/local/tmp/frida'' @ [CHR 0x09] @ ''agent.so'']) None None ''0.5'') = Some True
   \<and> map_option read_object
     (collectNativeSignals (Some [''7f1c2000-7f1c3000 r-xp 00000000 fd:01 99 /data/local/tmp/frida'' @ [CHR 0x09] @ ''agent.so'']) None None ''0.5'') = Some None"
  by code_simp

text \<open>
  C2. On the single line \<^verbatim>\<open>/data/local/tmp/frida-agent.so rwxp ...\<close> the scanner reports a
  writable-executable mapping, a loaded hook library, and the one module
  \<^verbatim>\<open>frida-agent.so\<close>: the text after the last slash, up to its first space.
\<close>

theorem frida_agent_line:
  "analyzeProcMaps (Some [''/data/local/tmp/frida-agent.so rwxp ...'']) =
     Some \<lparr>rwxSegments = 1, hasRwx = True, fridaLibLoaded = True,
           suspiciousModules = [''frida-agent.so'']\<rparr>"
  by code_simp

text \<open>
  C3. For every input the scanner returns, and its list of suspicious modules has no
  duplicate and no empty entry, and is ordered by first occurrence: it is the list of
  the module names proposed by the lines that are processed, each kept where it first
  appears.
\<close>

theorem suspiciousModules_first_seen:
  "\<exists>r. analyzeProcMaps maps = Some r \<and>
       distinct (suspiciousModules r) \<and>
       [] \<notin> set (suspiciousModules r) \<and>
       suspiciousModules r =
         spec_first_seen (List.map_filter spec_candidate (take 10000 (lines_of maps)))"
proof -
  let ?ls = "take 10000 (lines_of maps)"
  let ?r = "foldl spec_line_effect MapsAnalysis_default ?ls"
  have r: "analyzeProcMaps maps = Some ?r" by (rule analyzeProcMaps_eq)
  have m: "suspiciousModules ?r = spec_first_seen (List.map_filter spec_candidate ?ls)"
    using analyzeProcMaps_modules [of maps] by (simp add: r)
  have "distinct (suspiciousModules ?r)"
    by (simp only: m distinct_spec_first_seen)
  moreover have "[] \<notin> set (suspiciousModules ?r)"
    by (simp only: m set_spec_first_seen map_filter_candidates_nonempty not_False_eq_True)
  ultimately show ?thesis using r m by blast
qed

text \<open>
  C4. The check reports \<open>unexpected\<close> exactly when \<^verbatim>\<open>dladdr\<close> succeeds with a non-null
  file name that contains none of \<^verbatim>\<open>/system/lib\<close>, \<^verbatim>\<open>/apex/\<close> and \<^verbatim>\<open>libc.so\<close>. The path
  it records is that file name, and empty otherwise; when \<^verbatim>\<open>dladdr\<close> fails the result is
  the empty path with \<open>unexpected\<close> false.
\<close>

theorem libc_unexpected_iff:
  "unexpected (checkLibcSymbol dl) =
     (\<exists>info p. dl = Some info \<and> dli_fname info = Some p \<and>
        \<not> sublist ''/system/lib'' p \<and> \<not> sublist ''/apex/'' p \<and> \<not> sublist ''libc.so'' p)
   \<and> soPath (checkLibcSymbol dl) =
     (case dl of None \<Rightarrow> [] | Some info \<Rightarrow> (case dli_fname info of None \<Rightarrow> [] | Some p \<Rightarrow> p))
   \<and> checkLibcSymbol None = \<lparr>soPath = [], unexpected = False\<rparr>"
  by (auto simp: checkLibcSymbol_eq spec_accepted_path_def split: option.splits)

text \<open>
  C5. When the mapping listing cannot be opened, \<open>analyzeProcMaps\<close> returns the default
  result (zero segments, both flags false, no module); when the descriptor directory
  cannot be opened, \<open>checkFdForFrida\<close> returns false. Both return normally: the first is
  \<open>Some\<close> result, the second has no failing branch at all.
\<close>

theorem unavailable_resource_defaults:
  "analyzeProcMaps None =
     Some \<lparr>rwxSegments = 0, hasRwx = False, fridaLibLoaded = False, suspiciousModules = []\<rparr>
   \<and> checkFdForFrida None = False"
  by (simp add: analyzeProcMaps_def analyzeProcMaps_run_def MapsAnalysis_default_def
      checkFdForFrida_def checkFdForFrida_run_def)

text \<open>
  C6. \<open>checkFdForFrida\<close> returns true exactly when one of the entries it examines
  matches: an entry that is not a dot entry, whose link resolves to a non-empty target
  that, with its capital letters turned into small ones, contains \<^verbatim>\<open>frida\<close>, \<^verbatim>\<open>gadget\<close> or
  \<^verbatim>\<open>gum-js\<close>. The entries examined are those among the first 100 up to and including the
  first match: the counter of the loop is their number, none before the last one matches,
  and when the result is true the last one does. What follows a match within the cap does
  not change the run. The witness is a directory whose first match is written in capitals.
\<close>

theorem fd_scan_first_match:
  "checkFdForFrida dir = (\<exists>e \<in> set (spec_examined (entries_of dir)). spec_entry_matches e)
   \<and> fst (checkFdForFrida_run dir) = int (length (spec_examined (entries_of dir)))
   \<and> (\<forall>e \<in> set (butlast (spec_examined (entries_of dir))). \<not> spec_entry_matches e)
   \<and> (checkFdForFrida dir \<longrightarrow> spec_entry_matches (last (spec_examined (entries_of dir))))
   \<and> (\<forall>pre e rest. length pre < 100 \<and> spec_entry_matches e \<longrightarrow>
         checkFdForFrida_run (Some (pre @ e # rest)) = checkFdForFrida_run (Some (pre @ [e])))"
proof -
  let ?capped = "take 100 (entries_of dir)"
  have ex: "spec_examined (entries_of dir) =
      take (Suc (length (takeWhile (\<lambda>e. \<not> spec_entry_matches e) ?capped))) ?capped"
    by (simp add: spec_examined_def Let_def)
  have found: "checkFdForFrida dir = list_ex spec_entry_matches ?capped"
    by (simp add: checkFdForFrida_def checkFdForFrida_run_eq)
  have a: "checkFdForFrida dir = (\<exists>e \<in> set (spec_examined (entries_of dir)). spec_entry_matches e)"
    unfolding found ex list_ex_iff [symmetric]
    by (simp only: list_ex_examined)
  have b: "fst (checkFdForFrida_run dir) = int (length (spec_examined (entries_of dir)))"
    by (simp add: checkFdForFrida_run_eq)
  have c: "\<forall>e \<in> set (butlast (spec_examined (entries_of dir))). \<not> spec_entry_matches e"
    unfolding ex by (rule examined_prefix_clean)
  have d: "checkFdForFrida dir \<longrightarrow> spec_entry_matches (last (spec_examined (entries_of dir)))"
    unfolding found ex using examined_last [of spec_entry_matches ?capped] by blast
  have e: "\<forall>pre e rest. length pre < 100 \<and> spec_entry_matches e \<longrightarrow>
         checkFdForFrida_run (Some (pre @ e # rest)) = checkFdForFrida_run (Some (pre @ [e]))"
  proof (intro allI impI)
    fix pre :: "fd_entry list" and e rest
    assume h: "length pre < 100 \<and> spec_entry_matches e"
    then have "length pre < nat (MAX_FD_CHECK - 0)" by (simp add: MAX_FD_CHECK_def)
    from fdLoop_stops [OF this, of e rest] h
    show "checkFdForFrida_run (Some (pre @ e # rest)) = checkFdForFrida_run (Some (pre @ [e]))"
      by (simp add: checkFdForFrida_run_def)
  qed
  show ?thesis
    apply (intro conjI)
        apply (rule a)
       apply (rule b)
      apply (rule c)
     apply (rule d)
    apply (rule e)
    done
qed

theorem fd_scan_first_match_witness:
  "checkFdForFrida
     (Some [\<lparr>d_name = ''.'', readlink_result = None\<rparr>,
            \<lparr>d_name = ''0'', readlink_result = Some ''/dev/null''\<rparr>,
            \<lparr>d_name = ''7'', readlink_result = Some ''/DATA/LOCAL/TMP/LIBGADGET.SO''\<rparr>,
            \<lparr>d_name = ''8'', readlink_result = Some ''/data/local/tmp/re.frida.server''\<rparr>])
   \<and> fst (checkFdForFrida_run
     (Some [\<lparr>d_name = ''.'', readlink_result = None\<rparr>,
            \<lparr>d_name = ''0'', readlink_result = Some ''/dev/null''\<rparr>,
            \<lparr>d_name = ''7'', readlink_result = Some ''/DATA/LOCAL/TMP/LIBGADGET.SO''\<rparr>,
            \<lparr>d_name = ''8'', readlink_result = Some ''/data/local/tmp/re.frida.server''\<rparr>])) = 3"
proof -
  let ?d = "Some [\<lparr>d_name = ''.'', readlink_result = None\<rparr>,
            \<lparr>d_name = ''0'', readlink_result = Some ''/dev/null''\<rparr>,
            \<lparr>d_name = ''7'', readlink_result = Some ''/DATA/LOCAL/TMP/LIBGADGET.SO''\<rparr>,
            \<lparr>d_name = ''8'', readlink_result = Some ''/data/local/tmp/re.frida.server''\<rparr>]"
  have ex: "spec_examined (entries_of ?d) =
      [\<lparr>d_name = ''.'', readlink_result = None\<rparr>,
       \<lparr>d_name = ''0'', readlink_result = Some ''/dev/null''\<rparr>,
       \<lparr>d_name = ''7'', readlink_result = Some ''/DATA/LOCAL/TMP/LIBGADGET.SO''\<rparr>]"
    by code_simp
  have m: "spec_entry_matches \<lparr>d_name = ''7'', readlink_result = Some ''/DATA/LOCAL/TMP/LIBGADGET.SO''\<rparr>"
    by code_simp
  from fd_scan_first_match [of ?d] show ?thesis
    unfolding ex using m by simp
qed

text \<open>
  C7. If no line of the input, lower-cased, contains any of the eight keywords, the
  scanner returns an empty list of suspicious modules and \<open>fridaLibLoaded\<close> false.
\<close>

theorem no_keyword_no_modules:
  assumes "\<forall>line \<in> set (lines_of maps). \<forall>k \<in> set keywords_list. \<not> sublist k (lowercase line)"
  shows "\<exists>r. analyzeProcMaps maps = Some r \<and> suspiciousModules r = [] \<and> fridaLibLoaded r = False"
proof -
  let ?ls = "take 10000 (lines_of maps)"
  have no: "\<not> sublist k (lowercase l)" if "l \<in> set ?ls" and "k \<in> set keywords_list" for l k
    using assms that by (meson in_set_takeD)
  have cand: "spec_candidate l = None" if "l \<in> set ?ls" for l
    using no [OF that]
    by (auto simp: spec_candidate_def spec_has_keyword_def list_ex_iff lowercase_eq [symmetric])
  have frida: "\<not> spec_frida_line l" if "l \<in> set ?ls" for l
    using no [OF that, of "''frida''"] no [OF that, of "''gum-js''"] no [OF that, of "''gum_js''"]
    by (simp add: spec_frida_line_def keywords_list_def lowercase_eq [symmetric])
  have "List.map_filter spec_candidate ?ls = []"
    using cand by (auto simp: List.map_filter_def filter_empty_conv)
  then have "suspiciousModules (foldl spec_line_effect MapsAnalysis_default ?ls) = []"
    using analyzeProcMaps_modules [of maps] by (simp add: analyzeProcMaps_eq)
  moreover have "\<not> fridaLibLoaded (foldl spec_line_effect MapsAnalysis_default ?ls)"
    using frida by (simp add: foldl_fridaLibLoaded MapsAnalysis_default_def list_ex_iff)
  ultimately show ?thesis by (simp add: analyzeProcMaps_eq)
qed

theorem no_keyword_no_modules_witness:
  "\<exists>r. analyzeProcMaps
          (Some [''7f1c2000-7f1c3000 rwxp 00000000 fd:01 42 /system/lib64/libc.so'',
                 ''7f1d0000-7f1d1000 r--p 00000000 fd:01 43 /apex/com.android.art/lib64/libart.so''])
        = Some r \<and> suspiciousModules r = [] \<and> fridaLibLoaded r = False"
proof (rule no_keyword_no_modules)
  show "\<forall>line \<in> set (lines_of
            (Some [''7f1c2000-7f1c3000 rwxp 00000000 fd:01 42 /system/lib64/libc.so'',
                   ''7f1d0000-7f1d1000 r--p 00000000 fd:01 43 /apex/com.android.art/lib64/libart.so''])).
          \<forall>k \<in> set keywords_list. \<not> sublist k (lowercase line)"
    by code_simp
qed

text \<open>
  C8. For every input the maps loop returns after at most 10000 iterations, its counter
  being the smaller of the number of lines and 10000, and the descriptor loop after at
  most 100; what lies beyond the cap has no effect, and neither loop fails: the result
  is the one for the input cut at the cap.
\<close>

theorem guardrail_caps:
  "(\<exists>n r. analyzeProcMaps_run maps = Some (n, r) \<and>
          n = int (min (length (lines_of maps)) 10000) \<and> n \<le> 10000 \<and>
          analyzeProcMaps_run maps = analyzeProcMaps_run (Some (take 10000 (lines_of maps))))
   \<and> fst (checkFdForFrida_run dir) \<le> int (min (length (entries_of dir)) 100)
   \<and> fst (checkFdForFrida_run dir) \<le> 100
   \<and> checkFdForFrida_run dir = checkFdForFrida_run (Some (take 100 (entries_of dir)))"
  by (simp add: analyzeProcMaps_run_eq checkFdForFrida_run_eq lines_of_def entries_of_def
      spec_examined_def Let_def min_def)




text \<open>
  C10. A line that contains a keyword (capital letters counted as small ones) but no
  slash adds nothing to the list of suspicious modules, wherever it stands. Read within
  the cap of 10000 lines it sets \<open>fridaLibLoaded\<close> when it contains \<^verbatim>\<open>frida\<close>, \<^verbatim>\<open>gum-js\<close> or
  \<^verbatim>\<open>gum_js\<close>; beyond the cap it is not read and changes nothing. So a result with
  \<open>fridaLibLoaded\<close> true and no suspicious module is reachable: the single line \<^verbatim>\<open>frida\<close>
  gives it. The second theorem is the input on which the flag is not set: the line
  \<^verbatim>\<open>frida\<close> after 10000 other lines.
\<close>

theorem keyword_without_slash:
  "(spec_has_keyword line \<and> CHR ''/'' \<notin> set line \<longrightarrow>
      (\<exists>r0 r1. analyzeProcMaps (Some pre) = Some r0 \<and>
               analyzeProcMaps (Some (pre @ [line])) = Some r1 \<and>
               suspiciousModules r1 = suspiciousModules r0 \<and>
               (length pre < 10000 \<longrightarrow>
                  fridaLibLoaded r1 = (fridaLibLoaded r0 \<or> spec_frida_line line)) \<and>
               (10000 \<le> length pre \<longrightarrow> r1 = r0)))
   \<and> analyzeProcMaps (Some [''frida'']) =
       Some \<lparr>rwxSegments = 0, hasRwx = False, fridaLibLoaded = True, suspiciousModules = []\<rparr>"
proof (intro conjI impI)
  assume h: "spec_has_keyword line \<and> CHR ''/'' \<notin> set line"
  let ?r0 = "foldl spec_line_effect MapsAnalysis_default (take 10000 pre)"
  let ?r1 = "foldl spec_line_effect MapsAnalysis_default (take 10000 (pre @ [line]))"
  from h have cand: "spec_candidate line = None" by (simp add: spec_candidate_def)
  have r0: "analyzeProcMaps (Some pre) = Some ?r0"
    by (simp add: analyzeProcMaps_eq lines_of_def)
  have r1: "analyzeProcMaps (Some (pre @ [line])) = Some ?r1"
    by (simp add: analyzeProcMaps_eq lines_of_def)
  have within: "?r1 = spec_line_effect ?r0 line" if "length pre < 10000"
  proof -
    from that have "length (pre @ [line]) \<le> 10000" by simp
    then have "take 10000 (pre @ [line]) = pre @ [line]" by (rule take_all)
    moreover from that have "take 10000 pre = pre" by simp
    ultimately show ?thesis by (simp only: foldl_append foldl.simps)
  qed
  have beyond: "?r1 = ?r0" if "10000 \<le> length pre"
    using that by simp
  have mods: "suspiciousModules ?r1 = suspiciousModules ?r0"
  proof (cases "length pre < 10000")
    case True
    show ?thesis
      by (simp only: within [OF True]) (simp add: spec_line_effect_def cand spec_add_module_def)
  next
    case False
    then show ?thesis by (simp add: beyond)
  qed
  have flag: "length pre < 10000 \<longrightarrow>
      fridaLibLoaded ?r1 = (fridaLibLoaded ?r0 \<or> spec_frida_line line)"
  proof
    assume lt: "length pre < 10000"
    show "fridaLibLoaded ?r1 = (fridaLibLoaded ?r0 \<or> spec_frida_line line)"
      by (simp only: within [OF lt]) (simp add: spec_line_effect_def)
  qed
  have same: "10000 \<le> length pre \<longrightarrow> ?r1 = ?r0"
    using beyond by blast
  from r0 r1 mods flag same
  show "\<exists>r0 r1. analyzeProcMaps (Some pre) = Some r0 \<and>
               analyzeProcMaps (Some (pre @ [line])) = Some r1 \<and>
               suspiciousModules r1 = suspiciousModules r0 \<and>
               (length pre < 10000 \<longrightarrow>
                  fridaLibLoaded r1 = (fridaLibLoaded r0 \<or> spec_frida_line line)) \<and>
               (10000 \<le> length pre \<longrightarrow> r1 = r0)"
    by blast
next
  show "analyzeProcMaps (Some [''frida'']) =
       Some \<lparr>rwxSegments = 0, hasRwx = False, fridaLibLoaded = True, suspiciousModules = []\<rparr>"
    by code_simp
qed

theorem keyword_without_slash_witness:
  "spec_has_keyword ''[anon:GUM-JS heap]'' \<and> CHR ''/'' \<notin> set ''[anon:GUM-JS heap]'' \<and>
   (\<exists>r0 r1. analyzeProcMaps (Some [''/system/lib64/libc.so'']) = Some r0 \<and>
           analyzeProcMaps (Some ([''/system/lib64/libc.so''] @ [''[anon:GUM-JS heap]''])) = Some r1 \<and>
           suspiciousModules r1 = suspiciousModules r0 \<and> fridaLibLoaded r1)"
proof -
  have h: "spec_has_keyword ''[anon:GUM-JS heap]'' \<and> CHR ''/'' \<notin> set ''[anon:GUM-JS heap]''"
    by code_simp
  have f: "spec_frida_line ''[anon:GUM-JS heap]''" by code_simp
  have l: "length [''/system/lib64/libc.so''] < 10000" by simp
  from keyword_without_slash [of "''[anon:GUM-JS heap]''" "[''/system/lib64/libc.so'']"] h f l
  show ?thesis by blast
qed

theorem keyword_beyond_cap_counterexample:
  "spec_has_keyword ''frida'' \<and> spec_frida_line ''frida'' \<and> CHR ''/'' \<notin> set ''frida'' \<and>
   analyzeProcMaps
     (Some (replicate 10000 ''7f1c2000-7f1c3000 r--p 00000000 fd:01 42 /system/lib64/libc.so''
            @ [''frida''])) =
     Some \<lparr>rwxSegments = 0, hasRwx = False, fridaLibLoaded = False, suspiciousModules = []\<rparr>"
proof -
  let ?l = "''7f1c2000-7f1c3000 r--p 00000000 fd:01 42 /system/lib64/libc.so''"
  have k: "spec_has_keyword ''frida'' \<and> spec_frida_line ''frida'' \<and> CHR ''/'' \<notin> set ''frida''"
    by code_simp
  have quiet: "\<not> spec_rwx_line ?l \<and> \<not> spec_has_keyword ?l \<and> \<not> spec_frida_line ?l"
    by code_simp
  have "take 10000 (replicate 10000 ?l @ [''frida'']) = replicate 10000 ?l"
    by simp
  then have "analyzeProcMaps (Some (replicate 10000 ?l @ [''frida''])) =
      Some (foldl spec_line_effect MapsAnalysis_default (replicate 10000 ?l))"
    by (simp only: analyzeProcMaps_eq lines_of_def option.case)
  also have "foldl spec_line_effect MapsAnalysis_default (replicate 10000 ?l) = MapsAnalysis_default"
    using quiet by (rule foldl_quiet_lines)
  finally show ?thesis
    using k by (simp add: MapsAnalysis_default_def)
qed

end
